theory Spec2Isabelle
  imports Main
begin

section \<open>Values, errors and persisted documents\<close>

text \<open>
  The program is \<^verbatim>\<open>src/app.py\<close>: a Flask application whose background task
  \<^verbatim>\<open>send_emails_task\<close> sends one message per recipient and keeps a counter in
  \<^verbatim>\<open>email_counter.json\<close>.

  Values read from JSON documents are Python values. Numbers with a fraction are left out of
  the model; strings are byte strings (UTF-8), so only ASCII characters are one \<open>char\<close>.
  A dict is an association list, read with \<open>dict_get\<close> (Python's \<^verbatim>\<open>d.get(k, default)\<close>);
  the first entry for a key is the value the dict has for it.
\<close>

datatype pyval =
    PNone
  | PBool bool
  | PInt int
  | PStr string
  | PList "pyval list"
  | PDict "(string \<times> pyval) list"

datatype py_error =
    TypeError
  | ValueError
  | KeyError
  | IndexError
  | AttributeError
  | UnicodeEncodeError
  | UnicodeDecodeError

type_synonym dict = "(string \<times> pyval) list"

definition dict_get :: "dict \<Rightarrow> string \<Rightarrow> pyval \<Rightarrow> pyval" where
  "dict_get d k dflt = (case map_of d k of None \<Rightarrow> dflt | Some v \<Rightarrow> v)"

text \<open>Truth value of a Python value, as \<^verbatim>\<open>all([...])\<close>, \<^verbatim>\<open>not x\<close> and \<^verbatim>\<open>if x\<close> read it.\<close>

fun truthy :: "pyval \<Rightarrow> bool" where
  "truthy PNone = False"
| "truthy (PBool b) = b"
| "truthy (PInt n) = (n \<noteq> 0)"
| "truthy (PStr s) = (s \<noteq> [])"
| "truthy (PList xs) = (xs \<noteq> [])"
| "truthy (PDict kvs) = (kvs \<noteq> [])"

text \<open>
  What \<^verbatim>\<open>json.load\<close> makes of a file that \<^verbatim>\<open>open(..., 'r')\<close> has opened: \<open>Undecodable\<close>
  is the content whose bytes the text decoding rejects, so that reading raises
  \<^verbatim>\<open>UnicodeDecodeError\<close>; \<open>NotJson\<close> is the text on which \<^verbatim>\<open>json.load\<close> raises
  \<^verbatim>\<open>json.JSONDecodeError\<close>, the empty file among them; \<open>Json v\<close> is the text that parses
  to \<open>v\<close>. A file that does not exist is \<open>None\<close> in the world below. Opening an existing
  file for reading is taken to succeed.
\<close>

datatype json_text = Undecodable | NotJson | Json pyval


section \<open>Library functions the task calls\<close>

subsection \<open>\<^verbatim>\<open>int(x)\<close>\<close>

text \<open>
  \<^verbatim>\<open>int\<close> of a string strips the white space \<^verbatim>\<open>\t \n \v \f \r\<close> and the blank, reads an
  optional sign and then decimal digits, with single underscores allowed between digits.
  Digits outside ASCII and the interpreter's limit on the number of digits are not modelled.
\<close>

definition is_digit :: "char \<Rightarrow> bool" where
  "is_digit c = (48 \<le> (of_char c :: nat) \<and> (of_char c :: nat) \<le> 57)"

definition digit_val :: "char \<Rightarrow> int" where
  "digit_val c = int (of_char c) - 48"

definition int_space :: "char \<Rightarrow> bool" where
  "int_space c = (c \<in> set [CHR 0x09, CHR 0x0A, CHR 0x0B, CHR 0x0C, CHR 0x0D, CHR 0x20])"

fun parse_digits :: "int \<Rightarrow> string \<Rightarrow> int option" where
  "parse_digits acc [] = None"
| "parse_digits acc [c] = (if is_digit c then Some (acc * 10 + digit_val c) else None)"
| "parse_digits acc (c # d # ds) =
     (if is_digit c
      then (if d = CHR ''_'' then parse_digits (acc * 10 + digit_val c) ds
            else parse_digits (acc * 10 + digit_val c) (d # ds))
      else None)"

definition int_of_str :: "string \<Rightarrow> int option" where
  "int_of_str s =
     (case rev (dropWhile int_space (rev (dropWhile int_space s))) of
        [] \<Rightarrow> None
      | c # cs \<Rightarrow>
          if c = CHR ''-'' then map_option uminus (parse_digits 0 cs)
          else if c = CHR ''+'' then parse_digits 0 cs
          else parse_digits 0 (c # cs))"

fun py_int :: "pyval \<Rightarrow> py_error + int" where
  "py_int (PInt n) = Inr n"
| "py_int (PBool b) = Inr (if b then 1 else 0)"
| "py_int (PStr s) = (case int_of_str s of None \<Rightarrow> Inl ValueError | Some n \<Rightarrow> Inr n)"
| "py_int PNone = Inl TypeError"
| "py_int (PList xs) = Inl TypeError"
| "py_int (PDict kvs) = Inl TypeError"

text \<open>
  The int behind a counter in \<^verbatim>\<open>start_counter + stopper_value\<close>, the comparison of line
  174 and \<^verbatim>\<open>range\<close>: an int, or a bool (\<^verbatim>\<open>True\<close> counts as 1); for any other value
  the addition raises \<^verbatim>\<open>TypeError\<close>.
\<close>

fun as_int :: "pyval \<Rightarrow> int option" where
  "as_int (PInt a) = Some a"
| "as_int (PBool b) = Some (if b then 1 else 0)"
| "as_int v = None"

text \<open>\<^verbatim>\<open>xs[i]\<close>: a negative index counts from the end, an index out of range raises.\<close>

definition py_index :: "'a list \<Rightarrow> int \<Rightarrow> py_error + 'a" where
  "py_index xs i =
     (if 0 \<le> i \<and> i < int (length xs) then Inr (xs ! nat i)
      else if i < 0 \<and> - int (length xs) \<le> i then Inr (xs ! nat (int (length xs) + i))
      else Inl IndexError)"

text \<open>\<^verbatim>\<open>range(a, b)\<close> for ints.\<close>

definition py_range :: "int \<Rightarrow> int \<Rightarrow> int list" where
  "py_range a b = [a..b - 1]"

subsection \<open>\<^verbatim>\<open>extract_name\<close>\<close>

definition is_alpha :: "char \<Rightarrow> bool" where
  "is_alpha c = ((65 \<le> (of_char c :: nat) \<and> (of_char c :: nat) \<le> 90) \<or>
                 (97 \<le> (of_char c :: nat) \<and> (of_char c :: nat) \<le> 122))"

definition to_upper :: "char \<Rightarrow> char" where
  "to_upper c = (if 97 \<le> (of_char c :: nat) \<and> (of_char c :: nat) \<le> 122
                 then char_of ((of_char c :: nat) - 32) else c)"

definition to_lower :: "char \<Rightarrow> char" where
  "to_lower c = (if 65 \<le> (of_char c :: nat) \<and> (of_char c :: nat) \<le> 90
                 then char_of ((of_char c :: nat) + 32) else c)"

definition is_space :: "char \<Rightarrow> bool" where
  "is_space c = (c \<in> set [CHR 0x09, CHR 0x0A, CHR 0x0B, CHR 0x0C, CHR 0x0D,
                           CHR 0x1C, CHR 0x1D, CHR 0x1E, CHR 0x1F, CHR 0x20])"

definition py_strip :: "string \<Rightarrow> string" where
  "py_strip s = rev (dropWhile is_space (rev (dropWhile is_space s)))"

text \<open>\<^verbatim>\<open>s.split()\<close>: the maximal runs of characters that are not white space.\<close>

fun split_ws :: "string \<Rightarrow> string \<Rightarrow> string list" where
  "split_ws cur [] = (if cur = [] then [] else [cur])"
| "split_ws cur (c # cs) =
     (if is_space c then (if cur = [] then split_ws [] cs else cur # split_ws [] cs)
      else split_ws (cur @ [c]) cs)"

definition py_split :: "string \<Rightarrow> string list" where
  "py_split s = split_ws [] s"

fun capitalize :: "string \<Rightarrow> string" where
  "capitalize [] = []"
| "capitalize (c # cs) = to_upper c # map to_lower cs"

fun join_with :: "string \<Rightarrow> string list \<Rightarrow> string" where
  "join_with sep [] = []"
| "join_with sep [p] = p"
| "join_with sep (p # q # ps) = p @ sep @ join_with sep (q # ps)"

definition extract_name :: "string \<Rightarrow> string" where
  "extract_name email =
     (let local_part = takeWhile (\<lambda>c. c \<noteq> CHR ''@'') email;
          name = py_strip (map (\<lambda>c. if is_alpha c then c else CHR '' '') local_part);
          name = join_with '' '' (map capitalize (py_split name))
      in if name \<noteq> [] then name else ''there'')"


subsection \<open>\<^verbatim>\<open>str.format\<close>, \<^verbatim>\<open>formataddr\<close>, \<^verbatim>\<open>os.path.join\<close>\<close>

text \<open>
  \<^verbatim>\<open>template_body.format(greeting=greeting)\<close> is modelled for templates made of literal text,
  the escapes \<^verbatim>\<open>{{\<close> and \<^verbatim>\<open>}}\<close>, and replacement fields \<^verbatim>\<open>{name}\<close> whose name has no
  conversion, format specification, attribute or index (none of \<^verbatim>\<open>! : . [\<close>). A field
  outside this fragment gives \<open>NotModelled\<close>. The only keyword argument is \<^verbatim>\<open>greeting\<close> and
  there is no positional argument, so an empty or numeric field name raises
  \<^verbatim>\<open>IndexError\<close> and any other name raises \<^verbatim>\<open>KeyError\<close>; a brace that is neither doubled
  nor part of a field raises \<^verbatim>\<open>ValueError\<close>. Numeric names of more than nine digits are
  left out (the interpreter's limit on them depends on the platform).
\<close>

datatype fmt_result = Formatted string | Fails py_error | NotModelled

fun emit :: "string \<Rightarrow> fmt_result \<Rightarrow> fmt_result" where
  "emit s (Formatted t) = Formatted (s @ t)"
| "emit s (Fails e) = Fails e"
| "emit s NotModelled = NotModelled"

definition get_field :: "string \<Rightarrow> string \<Rightarrow> fmt_result" where
  "get_field greeting name =
     (if name = ''greeting'' then Formatted greeting
      else if list_all is_digit name
      then (if length name \<le> 9 then Fails IndexError else NotModelled)
      else Fails KeyError)"

fun fmt_literal :: "string \<Rightarrow> string \<Rightarrow> fmt_result"
  and fmt_field :: "string \<Rightarrow> string \<Rightarrow> string \<Rightarrow> fmt_result" where
  "fmt_literal g [] = Formatted []"
| "fmt_literal g [c] =
     (if c = CHR ''{'' \<or> c = CHR ''}'' then Fails ValueError else Formatted [c])"
| "fmt_literal g (c # d # ds) =
     (if c = CHR ''{''
      then (if d = CHR ''{'' then emit ''{'' (fmt_literal g ds) else fmt_field g [] (d # ds))
      else if c = CHR ''}''
      then (if d = CHR ''}'' then emit ''}'' (fmt_literal g ds) else Fails ValueError)
      else emit [c] (fmt_literal g (d # ds)))"
| "fmt_field g name [] = Fails ValueError"
| "fmt_field g name (c # cs) =
     (if c = CHR ''}''
      then (case get_field g name of
              Formatted v \<Rightarrow> emit v (fmt_literal g cs)
            | r \<Rightarrow> r)
      else if c = CHR ''{'' then Fails ValueError
      else if c \<in> set ''!:.['' then NotModelled
      else fmt_field g (name @ [c]) cs)"

text \<open>The method \<^verbatim>\<open>format\<close> exists on strings only.\<close>

definition format_body :: "pyval \<Rightarrow> string \<Rightarrow> fmt_result" where
  "format_body template greeting =
     (case template of PStr t \<Rightarrow> fmt_literal greeting t | _ \<Rightarrow> Fails AttributeError)"

text \<open>
  \<^verbatim>\<open>formataddr((name, address))\<close> for an ASCII name without special characters: it calls
  \<^verbatim>\<open>address.encode('ascii')\<close> first.
\<close>

definition is_ascii :: "char \<Rightarrow> bool" where
  "is_ascii c = ((of_char c :: nat) < 128)"

definition formataddr :: "string \<Rightarrow> pyval \<Rightarrow> py_error + string" where
  "formataddr name address =
     (case address of
        PStr a \<Rightarrow> if list_all is_ascii a then Inr (name @ '' <'' @ a @ ''>'')
                  else Inl UnicodeEncodeError
      | _ \<Rightarrow> Inl AttributeError)"

definition UPLOAD_FOLDER :: string where
  "UPLOAD_FOLDER = ''uploads''"

definition os_path_join :: "string \<Rightarrow> pyval \<Rightarrow> py_error + string" where
  "os_path_join a b =
     (case b of
        PStr p \<Rightarrow> Inr (if p \<noteq> [] \<and> hd p = CHR ''/'' then p else a @ ''/'' @ p)
      | _ \<Rightarrow> Inl TypeError)"


section \<open>State, environment and effects\<close>

text \<open>
  Each call of \<^verbatim>\<open>log_message\<close> in the source has one constructor here, holding the
  values its f-string interpolates; the time stamp that \<^verbatim>\<open>log_message\<close> puts in front is
  left out.
\<close>

datatype message =
    Started
  | MissingConfig
  | NoEmailColumn pyval
  | LoadedEmails nat pyval
  | CsvError string
  | AllSent
  | Preparing pyval int
  | Connected
  | ConnectFailed string
  | AttachWarning string string
  | ResumeNotFound pyval
  | Success string int nat
  | SendError string string
  | BatchFinished
  | CounterReset

record mail =
  mail_from :: string
  mail_to :: string
  mail_subject :: pyval
  mail_body :: string
  mail_attached :: bool

text \<open>
  The trace lists what a run did to the outside, in order: \<open>Sendmail i m r\<close> is the call of
  \<^verbatim>\<open>server.sendmail\<close> for index \<open>i\<close> with its result (\<open>None\<close> when it returned, the
  exception's text when it raised). Saving the counter is two steps: \<open>TruncatedCounter\<close> is
  \<^verbatim>\<open>open(COUNTER_FILE, 'w')\<close>, which empties the file, and \<open>SavedCounter c\<close> is the end of the
  \<^verbatim>\<open>with\<close> block, when the text for \<open>c\<close> is in the file; \<open>SaveRaised e\<close> is an exception
  that leaves \<^verbatim>\<open>save_counter\<close>.
\<close>

datatype effect =
    Logged message
  | TruncatedCounter
  | SavedCounter int
  | SaveRaised string
  | Slept nat
  | SmtpLogin "string option"
  | Sendmail int mail "string option"
  | SmtpQuit
  | ThreadStarted dict

text \<open>
  The world is the mutable state of the process and its files: the two JSON files, the
  global \<^verbatim>\<open>LOGS\<close>, the background threads started and still running, and the trace.
\<close>

record world =
  counter_file :: "json_text option"
  config_file :: "json_text option"
  LOGS :: "message list"
  threads :: "dict list"
  trace :: "effect list"

text \<open>
  What the run cannot decide itself is given by the environment: what lines 157 to 165 make
  of the recipient file (an exception, no column whose name contains \<^verbatim>\<open>email\<close>, or the
  list of addresses), whether connecting and logging in to the SMTP server raises, whether
  the resume file exists and can be read when index \<open>i\<close> is composed, and whether
  \<^verbatim>\<open>server.sendmail\<close> (with \<^verbatim>\<open>msg.as_string()\<close>) raises for index \<open>i\<close>. Appending to the
  log, the pause and \<^verbatim>\<open>server.quit()\<close> are taken to succeed.
\<close>

datatype csv_outcome = CsvRaises string | NoColumn | Emails "string list"

record env =
  read_csv :: csv_outcome
  smtp_login :: "string option"
  attach_exists :: "int \<Rightarrow> bool"
  attach_error :: "int \<Rightarrow> string option"
  sendmail :: "int \<Rightarrow> string option"

text \<open>
  What the storage does with the write of the counter \<open>c\<close>: the write goes through, or
  \<^verbatim>\<open>open(COUNTER_FILE, 'w')\<close> raises and the file is as before, or the file is opened, and
  so emptied, and writing or closing it raises. A storage is \<open>reliable\<close> when every write
  goes through.
\<close>

datatype write_outcome = Written | OpenRaises string | WriteRaises string

type_synonym storage = "int \<Rightarrow> write_outcome"

definition reliable :: storage where
  "reliable = (\<lambda>c. Written)"

datatype outcome = Normal | Raised py_error | OutsideModel

definition effect :: "effect \<Rightarrow> world \<Rightarrow> world" where
  "effect e w = w\<lparr>trace := trace w @ [e]\<rparr>"

definition log_message :: "message \<Rightarrow> world \<Rightarrow> world" where
  "log_message m w = effect (Logged m) (w\<lparr>LOGS := LOGS w @ [m]\<rparr>)"

text \<open>\<^verbatim>\<open>d.get(k, default)\<close> on a loaded JSON value: only a dict has the method.\<close>

definition py_get :: "pyval \<Rightarrow> string \<Rightarrow> pyval \<Rightarrow> py_error + pyval" where
  "py_get d k dflt = (case d of PDict kvs \<Rightarrow> Inr (dict_get kvs k dflt) | _ \<Rightarrow> Inl AttributeError)"

definition load_config :: "world \<Rightarrow> py_error + pyval" where
  "load_config w =
     (case config_file w of
        None \<Rightarrow> Inr (PDict [])
      | Some Undecodable \<Rightarrow> Inl UnicodeDecodeError
      | Some NotJson \<Rightarrow> Inr (PDict [])
      | Some (Json v) \<Rightarrow> Inr v)"

definition load_counter :: "world \<Rightarrow> py_error + pyval" where
  "load_counter w =
     (case counter_file w of
        None \<Rightarrow> Inr (PInt 0)
      | Some Undecodable \<Rightarrow> Inl UnicodeDecodeError
      | Some NotJson \<Rightarrow> Inr (PInt 0)
      | Some (Json data) \<Rightarrow> py_get data ''counter'' (PInt 0))"

text \<open>
  \<^verbatim>\<open>save_counter\<close> (lines 76 to 79) on a given storage: the result is the text of the
  exception that leaves it, if any. Opening the file for writing empties it before anything
  is written; what a write that raises leaves behind is a part of the text at most, which
  is not valid JSON.
\<close>

definition truncate_counter :: "world \<Rightarrow> world" where
  "truncate_counter w = effect TruncatedCounter (w\<lparr>counter_file := Some NotJson\<rparr>)"

definition save_counter_with :: "storage \<Rightarrow> int \<Rightarrow> world \<Rightarrow> string option \<times> world" where
  "save_counter_with S counter w =
     (case S counter of
        OpenRaises e \<Rightarrow> (Some e, effect (SaveRaised e) w)
      | WriteRaises e \<Rightarrow> (Some e, effect (SaveRaised e) (truncate_counter w))
      | Written \<Rightarrow>
          (None,
           effect (SavedCounter counter)
             ((truncate_counter w)
                \<lparr>counter_file := Some (Json (PDict [(''counter'', PInt counter)]))\<rparr>)))"

text \<open>\<^verbatim>\<open>save_counter\<close> on a reliable storage.\<close>

definition save_counter :: "int \<Rightarrow> world \<Rightarrow> world" where
  "save_counter counter w = snd (save_counter_with reliable counter w)"


section \<open>The sending task\<close>

text \<open>
  The values that the loop of \<^verbatim>\<open>send_emails_task\<close> reads from the enclosing function.
\<close>

record run_ctx =
  sender_email :: pyval
  template_subject :: pyval
  template_body :: pyval
  resume_filename :: pyval
  resume_path :: "string option"
  email_list :: "string list"

text \<open>Lines 204 to 213: the attachment, with its two warnings. The result says whether the
  message carries the attachment.\<close>

definition attach_resume :: "env \<Rightarrow> run_ctx \<Rightarrow> int \<Rightarrow> string \<Rightarrow> world \<Rightarrow> bool \<times> world" where
  "attach_resume E ctx i receiver w =
     (if (case resume_path ctx of None \<Rightarrow> False | Some p \<Rightarrow> p \<noteq> [] \<and> attach_exists E i)
      then (case attach_error E i of
              None \<Rightarrow> (True, w)
            | Some e \<Rightarrow> (False, log_message (AttachWarning receiver e) w))
      else if truthy (resume_filename ctx)
      then (False, log_message (ResumeNotFound (resume_filename ctx)) w)
      else (False, w))"

text \<open>
  One pass through the body of the loop (lines 192 to 224) for index \<open>i\<close>. Lines 192 to 201
  stand outside any \<^verbatim>\<open>try\<close>: an exception there leaves the function. The \<^verbatim>\<open>try\<close> of
  lines 216 to 223 catches what \<^verbatim>\<open>server.sendmail\<close> raises, and also what
  \<^verbatim>\<open>save_counter\<close> raises after a send that returned: both are logged by line 223.
\<close>

definition send_one_with ::
  "storage \<Rightarrow> env \<Rightarrow> run_ctx \<Rightarrow> int \<Rightarrow> world \<Rightarrow> outcome \<times> world" where
  "send_one_with S E ctx i w =
     (case py_index (email_list ctx) i of
        Inl e \<Rightarrow> (Raised e, w)
      | Inr receiver \<Rightarrow>
          (case formataddr ''Akash Sakhare'' (sender_email ctx) of
             Inl e \<Rightarrow> (Raised e, w)
           | Inr sender \<Rightarrow>
               (case format_body (template_body ctx) (''Hi '' @ extract_name receiver) of
                  Fails e \<Rightarrow> (Raised e, w)
                | NotModelled \<Rightarrow> (OutsideModel, w)
                | Formatted body \<Rightarrow>
                    (let (att, w1) = attach_resume E ctx i receiver w;
                         msg = \<lparr>mail_from = sender, mail_to = receiver,
                                mail_subject = template_subject ctx, mail_body = body,
                                mail_attached = att\<rparr>;
                         w2 = effect (Sendmail i msg (sendmail E i)) w1
                     in case sendmail E i of
                          None \<Rightarrow>
                            (case save_counter_with S (i + 1)
                                    (log_message
                                       (Success receiver (i + 1) (length (email_list ctx)))
                                       w2) of
                               (None, w3) \<Rightarrow> (Normal, effect (Slept 5) w3)
                             | (Some e, w3) \<Rightarrow>
                                 (Normal, log_message (SendError receiver e) w3))
                        | Some e \<Rightarrow> (Normal, log_message (SendError receiver e) w2)))))"

text \<open>The \<^verbatim>\<open>for\<close> loop over the indices; it ends early only when a pass raises.\<close>

fun send_loop_with ::
  "storage \<Rightarrow> env \<Rightarrow> run_ctx \<Rightarrow> int list \<Rightarrow> world \<Rightarrow> outcome \<times> world" where
  "send_loop_with S E ctx [] w = (Normal, w)"
| "send_loop_with S E ctx (i # is) w =
     (case send_one_with S E ctx i w of
        (Normal, w') \<Rightarrow> send_loop_with S E ctx is w'
      | (r, w') \<Rightarrow> (r, w'))"

definition end_counter :: "int \<Rightarrow> int \<Rightarrow> 'a list \<Rightarrow> int" where
  "end_counter start_counter stopper_value emails =
     min (start_counter + stopper_value) (int (length emails))"

text \<open>
  Lines 171 to 227, once the configuration is read and the list of addresses is loaded.
\<close>

definition send_batch_with ::
  "storage \<Rightarrow> env \<Rightarrow> run_ctx \<Rightarrow> int \<Rightarrow> world \<Rightarrow> outcome \<times> world" where
  "send_batch_with S E ctx stopper_value w =
     (case load_counter w of
        Inl e \<Rightarrow> (Raised e, w)
      | Inr start_counter \<Rightarrow>
          (case as_int start_counter of
             None \<Rightarrow> (Raised TypeError, w)
           | Some start \<Rightarrow>
               if start \<ge> int (length (email_list ctx)) then (Normal, log_message AllSent w)
               else
                 (let w1 = log_message
                        (Preparing start_counter
                           (end_counter start stopper_value (email_list ctx) - 1)) w;
                      w2 = effect (SmtpLogin (smtp_login E)) w1
                  in case smtp_login E of
                       Some e \<Rightarrow> (Normal, log_message (ConnectFailed e) w2)
                     | None \<Rightarrow>
                         (case send_loop_with S E ctx
                                 (py_range start
                                    (end_counter start stopper_value (email_list ctx)))
                                 (log_message Connected w2) of
                            (Normal, w3) \<Rightarrow>
                              (Normal, log_message BatchFinished (effect SmtpQuit w3))
                          | (r, w3) \<Rightarrow> (r, w3)))))"

text \<open>Lines 131 to 169, then \<open>send_batch_with\<close>.\<close>

definition send_emails_task_with ::
  "storage \<Rightarrow> env \<Rightarrow> dict \<Rightarrow> world \<Rightarrow> outcome \<times> world" where
  "send_emails_task_with S E config w =
     (let w0 = log_message Started (w\<lparr>LOGS := []\<rparr>);
          sender = dict_get config ''email'' PNone;
          app_password = dict_get config ''password'' PNone
      in case py_int (dict_get config ''stopper'' (PInt 100)) of
           Inl e \<Rightarrow> (Raised e, w0)
         | Inr stopper_value \<Rightarrow>
             (let csv_file_path = dict_get config ''default_file'' PNone;
                  subject = dict_get config ''template_subject'' (PStr ''Hello'');
                  body = dict_get config ''template_body'' (PStr ''Hi {greeting}'');
                  resume = dict_get config ''resume_file'' PNone
              in if \<not> (truthy sender \<and> truthy app_password \<and> truthy csv_file_path)
                 then (Normal, log_message MissingConfig w0)
                 else
                   (case (if truthy resume then map_sum id Some (os_path_join UPLOAD_FOLDER resume)
                          else Inr None) of
                      Inl e \<Rightarrow> (Raised e, w0)
                    | Inr path \<Rightarrow>
                        (case read_csv E of
                           CsvRaises e \<Rightarrow> (Normal, log_message (CsvError e) w0)
                         | NoColumn \<Rightarrow> (Normal, log_message (NoEmailColumn csv_file_path) w0)
                         | Emails addresses \<Rightarrow>
                             send_batch_with S E
                               \<lparr>sender_email = sender, template_subject = subject,
                                template_body = body, resume_filename = resume,
                                resume_path = path, email_list = addresses\<rparr>
                               stopper_value
                               (log_message (LoadedEmails (length addresses) csv_file_path) w0)))))"


text \<open>
  The task and its parts on a reliable storage: every write of the counter file goes
  through.
\<close>

definition send_one :: "env \<Rightarrow> run_ctx \<Rightarrow> int \<Rightarrow> world \<Rightarrow> outcome \<times> world" where
  "send_one E ctx i w = send_one_with reliable E ctx i w"

definition send_loop :: "env \<Rightarrow> run_ctx \<Rightarrow> int list \<Rightarrow> world \<Rightarrow> outcome \<times> world" where
  "send_loop E ctx indices w = send_loop_with reliable E ctx indices w"

definition send_batch :: "env \<Rightarrow> run_ctx \<Rightarrow> int \<Rightarrow> world \<Rightarrow> outcome \<times> world" where
  "send_batch E ctx stopper_value w = send_batch_with reliable E ctx stopper_value w"

definition send_emails_task :: "env \<Rightarrow> dict \<Rightarrow> world \<Rightarrow> outcome \<times> world" where
  "send_emails_task E config w = send_emails_task_with reliable E config w"

section \<open>The routes that read the state and start the task\<close>

definition reset_counter :: "world \<Rightarrow> world" where
  "reset_counter w = log_message CounterReset (save_counter 0 w)"

text \<open>
  \<^verbatim>\<open>get_status\<close> (lines 385 to 394): the JSON object of the response, or the exception that
  leaves the handler.
\<close>

definition get_status :: "world \<Rightarrow> py_error + dict" where
  "get_status w =
     (case load_config w of
        Inl e \<Rightarrow> Inl e
      | Inr config \<Rightarrow>
          (case load_counter w of
             Inl e \<Rightarrow> Inl e
           | Inr counter \<Rightarrow>
               (case py_get config ''stopper'' (PInt 100) of
                  Inl e \<Rightarrow> Inl e
                | Inr stopper \<Rightarrow>
                    (case py_int stopper of
                       Inl e \<Rightarrow> Inl e
                     | Inr stopper_value \<Rightarrow>
                         (case py_get config ''email'' (PStr []) of
                            Inl e \<Rightarrow> Inl e
                          | Inr email \<Rightarrow>
                              Inr [(''counter'', counter),
                                   (''stopper'', PInt stopper_value),
                                   (''email'', email)])))))"

text \<open>The two built-in templates, with the texts of lines 86 to 115.\<close>

definition default_body :: string where
  "default_body =
     ''{greeting},\<newline>'' @
     ''\<newline>'' @
     ''I hope you'' @
     [CHR 0x27] @
     ''re having a productive and meaningful day.\<newline>'' @
     ''\<newline>'' @
     ''My name is Akash Sakhare, and I'' @
     [CHR 0xE2, CHR 0x80, CHR 0x99] @
     ''m currently working as a Junior Software '' @
     ''Engineer in Bangalore. I'' @
     [CHR 0xE2, CHR 0x80, CHR 0x99] @
     ''m reaching out to explore any potential openings '' @
     ''for AI/ML or Software Engineer roles at your organization. I'' @
     [CHR 0xE2, CHR 0x80, CHR 0x99] @
     ''ve been following '' @
     ''the impactful work your team delivers, and I'' @
     [CHR 0xE2, CHR 0x80, CHR 0x99] @
     ''d be excited to contribute '' @
     ''my skills and passion to such a forward-thinking environment.\<newline>'' @
     ''\<newline>'' @
     ''I'' @
     [CHR 0xE2, CHR 0x80, CHR 0x99] @
     ''ve attached my resume for your review. If there are any current or upcoming '' @
     ''opportunities where I could contribute, I'' @
     [CHR 0xE2, CHR 0x80, CHR 0x99] @
     ''d love to connect and discuss '' @
     ''further.\<newline>'' @
     ''\<newline>'' @
     ''Warm regards,\<newline>'' @
     ''Akash Sakhare\<newline>''"

definition concise_body :: string where
  "concise_body =
     ''{greeting},\<newline>'' @
     ''\<newline>'' @
     ''I hope this email finds you well. I'' @
     [CHR 0x27] @
     ''m Akash Sakhare, a Junior Software '' @
     ''Engineer with experience in AI development, and I'' @
     [CHR 0x27] @
     ''m interested in exploring '' @
     ''opportunities with your team.\<newline>'' @
     ''\<newline>'' @
     ''My key achievements include building ML pipelines, developing conversational '' @
     ''AI, and fine-tuning LLMs. I'' @
     [CHR 0x27] @
     ''m passionate about solving real-world problems '' @
     ''through AI.\<newline>'' @
     ''\<newline>'' @
     ''I'' @
     [CHR 0x27] @
     ''ve attached my resume for your consideration. I'' @
     [CHR 0x27] @
     ''d appreciate the opportunity '' @
     ''to discuss how my skills align with your current needs.\<newline>'' @
     ''\<newline>'' @
     ''Best regards,\<newline>'' @
     ''Akash Sakhare\<newline>''"

definition get_email_templates :: "(string \<times> dict) list" where
  "get_email_templates =
     [(''default'', [(''subject'', PStr ''Hi, I am Akash Sakhare''), (''body'', PStr default_body)]),
      (''concise'', [(''subject'', PStr ''AI/Data Science Opportunity''),
                    (''body'', PStr concise_body)])]"

text \<open>\<^verbatim>\<open>template_name in all_templates\<close>: a list or a dict cannot be hashed.\<close>

definition in_templates :: "pyval \<Rightarrow> (string \<times> dict) list \<Rightarrow> py_error + bool" where
  "in_templates template_name all_templates =
     (case template_name of
        PStr s \<Rightarrow> Inr (map_of all_templates s \<noteq> None)
      | PList xs \<Rightarrow> Inl TypeError
      | PDict kvs \<Rightarrow> Inl TypeError
      | _ \<Rightarrow> Inr False)"

definition builtin :: "pyval \<Rightarrow> string \<Rightarrow> pyval" where
  "builtin template_name k =
     (case template_name of
        PStr s \<Rightarrow> (case map_of get_email_templates s of
                    Some t \<Rightarrow> dict_get t k PNone
                  | None \<Rightarrow> PNone)
      | _ \<Rightarrow> PNone)"

text \<open>
  \<^verbatim>\<open>start_sending\<close> (lines 418 to 453): it builds the dict for the task, starts a daemon
  thread on \<^verbatim>\<open>send_emails_task\<close> and answers at once. The thread is recorded in
  \<open>threads\<close>; the handler reads nothing about the threads already there.
\<close>

definition start_sending :: "world \<Rightarrow> (py_error + dict) \<times> world" where
  "start_sending w =
     (case load_config w of
        Inl e \<Rightarrow> (Inl e, w)
      | Inr (PDict config) \<Rightarrow>
          (case dict_get config ''current_template'' (PDict []) of
             PDict template_info \<Rightarrow>
               (let template_name = dict_get template_info ''name'' (PStr ''default'')
                in case in_templates template_name get_email_templates of
                     Inl e \<Rightarrow> (Inl e, w)
                   | Inr known \<Rightarrow>
                       (let use_builtin =
                              (known \<and> \<not> truthy (dict_get template_info ''body'' PNone));
                            subject =
                              (if use_builtin then builtin template_name ''subject''
                               else dict_get template_info ''subject'' (PStr ''Hello''));
                            body =
                              (if use_builtin then builtin template_name ''body''
                               else dict_get template_info ''body'' (PStr ''Hi {greeting}''));
                            send_config =
                              [(''email'', dict_get config ''email'' PNone),
                               (''password'', dict_get config ''password'' PNone),
                               (''stopper'', dict_get config ''stopper'' (PInt 100)),
                               (''default_file'', dict_get config ''default_file'' PNone),
                               (''resume_file'', dict_get config ''resume_file'' PNone),
                               (''template_name'', template_name),
                               (''template_subject'', subject),
                               (''template_body'', body)]
                        in (Inr [(''success'', PBool True),
                                 (''message'', PStr ''Email sending process initiated.'')],
                            effect (ThreadStarted send_config)
                              (w\<lparr>threads := threads w @ [send_config]\<rparr>))))
           | _ \<Rightarrow> (Inl AttributeError, w))
      | _ \<Rightarrow> (Inl AttributeError, w))"

section \<open>Reading a trace\<close>

text \<open>
  The indices for which a trace holds a call of \<^verbatim>\<open>server.sendmail\<close>, in order, and those
  among them whose call returned.
\<close>

fun attempts :: "effect list \<Rightarrow> int list" where
  "attempts [] = []"
| "attempts (Sendmail i m r # es) = i # attempts es"
| "attempts (e # es) = attempts es"

fun delivered :: "effect list \<Rightarrow> int list" where
  "delivered [] = []"
| "delivered (Sendmail i m None # es) = i # delivered es"
| "delivered (e # es) = delivered es"

text \<open>What a step from \<open>w\<close> to \<open>w'\<close> added to the trace.\<close>

definition new_trace :: "world \<Rightarrow> world \<Rightarrow> effect list" where
  "new_trace w w' = drop (length (trace w)) (trace w')"

text \<open>The counter file as \<open>save_counter c\<close> leaves it.\<close>

definition stored :: "int \<Rightarrow> json_text option" where
  "stored c = Some (Json (PDict [(''counter'', PInt c)]))"

text \<open>The environment lets the send for index \<open>i\<close> return.\<close>

definition ok :: "env \<Rightarrow> int \<Rightarrow> bool" where
  "ok E i = (sendmail E i = None)"

text \<open>
  What lines 218 to 223 do after the call of \<^verbatim>\<open>server.sendmail\<close> for index \<open>i\<close>, on a
  reliable storage.
\<close>

definition final_events :: "env \<Rightarrow> run_ctx \<Rightarrow> int \<Rightarrow> string \<Rightarrow> effect list" where
  "final_events E ctx i receiver =
     (case sendmail E i of
        None \<Rightarrow> [Logged (Success receiver (i + 1) (length (email_list ctx))),
                 TruncatedCounter, SavedCounter (i + 1), Slept 5]
      | Some e \<Rightarrow> [Logged (SendError receiver e)])"

text \<open>The messages a trace logs, in order.\<close>

fun logged :: "effect list \<Rightarrow> message list" where
  "logged [] = []"
| "logged (Logged m # es) = m # logged es"
| "logged (e # es) = logged es"

text \<open>
  Every send that returned is followed at once by its success event, the two steps that
  write the next index to the counter file, and the pause.
\<close>

definition saved_at_once :: "effect list \<Rightarrow> bool" where
  "saved_at_once tr =
     (\<forall>pre post i m. tr = pre @ Sendmail i m None # post \<longrightarrow>
        (\<exists>msg post'. post = Logged msg # TruncatedCounter # SavedCounter (i + 1) #
                                 Slept 5 # post'))"

section \<open>The conditions on the configuration\<close>

text \<open>
  Names for what lines 139 to 152 compute from the dict: the batch size of line 141, the
  test of line 148, the path of line 152, and the values the loop keeps reading.
\<close>

definition stopper_of :: "dict \<Rightarrow> py_error + int" where
  "stopper_of config = py_int (dict_get config ''stopper'' (PInt 100))"

definition config_complete :: "dict \<Rightarrow> bool" where
  "config_complete config =
     (truthy (dict_get config ''email'' PNone) \<and>
      truthy (dict_get config ''password'' PNone) \<and>
      truthy (dict_get config ''default_file'' PNone))"

definition resume_of :: "dict \<Rightarrow> py_error + string option" where
  "resume_of config =
     (if truthy (dict_get config ''resume_file'' PNone)
      then map_sum id Some (os_path_join UPLOAD_FOLDER (dict_get config ''resume_file'' PNone))
      else Inr None)"

definition run_ctx_of :: "dict \<Rightarrow> string option \<Rightarrow> string list \<Rightarrow> run_ctx" where
  "run_ctx_of config path addresses =
     \<lparr>sender_email = dict_get config ''email'' PNone,
      template_subject = dict_get config ''template_subject'' (PStr ''Hello''),
      template_body = dict_get config ''template_body'' (PStr ''Hi {greeting}''),
      resume_filename = dict_get config ''resume_file'' PNone,
      resume_path = path, email_list = addresses\<rparr>"

text \<open>The world in which line 171 reads the counter.\<close>

definition loaded_world :: "dict \<Rightarrow> string list \<Rightarrow> world \<Rightarrow> world" where
  "loaded_world config addresses w =
     log_message (LoadedEmails (length addresses) (dict_get config ''default_file'' PNone))
       (log_message Started (w\<lparr>LOGS := []\<rparr>))"

text \<open>The world in which the loop starts, after lines 178 to 185.\<close>

definition connected_world :: "pyval \<Rightarrow> int \<Rightarrow> world \<Rightarrow> world" where
  "connected_world v last_index w =
     log_message Connected (effect (SmtpLogin None) (log_message (Preparing v last_index) w))"

section \<open>Runs one after the other\<close>



section \<open>The counter file when a run is cut off\<close>

text \<open>
  The counter file that a trace leaves behind, from the file \<open>f\<close> it started with: opening
  the file for writing empties it, the finished write leaves the text for \<open>c\<close>.
\<close>

fun counter_file_after :: "effect list \<Rightarrow> json_text option \<Rightarrow> json_text option" where
  "counter_file_after [] f = f"
| "counter_file_after (TruncatedCounter # es) f = counter_file_after es (Some NotJson)"
| "counter_file_after (SavedCounter c # es) f =
     counter_file_after es (Some (Json (PDict [(''counter'', PInt c)])))"
| "counter_file_after (e # es) f = counter_file_after es f"

text \<open>
  A run from \<open>w\<close> that is cut off when \<open>pre\<close> is what it has done leaves the counter file
  \<open>counter_file_after pre (counter_file w)\<close>. \<open>cursor_after w pre\<close> is the counter that the
  next start of the process reads from it (\<open>None\<close> when reading raises or gives no int), and
  \<open>lost_sends w pre\<close> are the indices whose send had returned and which that counter does not
  cover: the sends that the cut cost.
\<close>

definition cursor_after :: "world \<Rightarrow> effect list \<Rightarrow> int option" where
  "cursor_after w pre =
     (case load_counter (w\<lparr>counter_file := counter_file_after pre (counter_file w)\<rparr>) of
        Inr v \<Rightarrow> as_int v
      | Inl e \<Rightarrow> None)"

definition lost_sends :: "world \<Rightarrow> effect list \<Rightarrow> int list" where
  "lost_sends w pre =
     filter (\<lambda>j. case cursor_after w pre of Some c \<Rightarrow> c \<le> j | None \<Rightarrow> True) (delivered pre)"

text \<open>
  A point at which a run can be cut without being inside a write of the counter file, and
  before which no write of the counter file has raised.
\<close>

definition crash_point :: "effect list \<Rightarrow> bool" where
  "crash_point pre =
     ((\<forall>e. SaveRaised e \<notin> set pre) \<and> (pre = [] \<or> last pre \<noteq> TruncatedCounter))"

definition crash_safe :: "world \<Rightarrow> effect list \<Rightarrow> bool" where
  "crash_safe w tr =
     (\<forall>pre post. tr = pre @ post \<longrightarrow> crash_point pre \<longrightarrow> length (lost_sends w pre) \<le> 1)"

text \<open>
  On any storage: a send that returned, for an index whose write goes through, is followed
  at once by the success event, the two steps of the write and the pause.
\<close>

definition saved_when_written :: "storage \<Rightarrow> effect list \<Rightarrow> bool" where
  "saved_when_written S tr =
     (\<forall>pre post i m. tr = pre @ Sendmail i m None # post \<and> S (i + 1) = Written \<longrightarrow>
        (\<exists>msg post'. post = Logged msg # TruncatedCounter # SavedCounter (i + 1) #
                                 Slept 5 # post'))"

text \<open>What lines 218 to 223 do after the call of \<^verbatim>\<open>server.sendmail\<close>, on any storage.\<close>

definition pass_events :: "storage \<Rightarrow> env \<Rightarrow> run_ctx \<Rightarrow> int \<Rightarrow> string \<Rightarrow> effect list" where
  "pass_events S E ctx i receiver =
     (case sendmail E i of
        Some e \<Rightarrow> [Logged (SendError receiver e)]
      | None \<Rightarrow>
          Logged (Success receiver (i + 1) (length (email_list ctx))) #
          (case S (i + 1) of
             Written \<Rightarrow> [TruncatedCounter, SavedCounter (i + 1), Slept 5]
           | OpenRaises e \<Rightarrow> [SaveRaised e, Logged (SendError receiver e)]
           | WriteRaises e \<Rightarrow> [TruncatedCounter, SaveRaised e, Logged (SendError receiver e)]))"

text \<open>
  The state of the counter file between two passes of the loop: no write is open, and
  either a write has raised or the counter covers every send that returned; \<open>i\<close> bounds the
  indices sent so far.
\<close>

definition settled :: "world \<Rightarrow> effect list \<Rightarrow> bool" where
  "settled w tr = (\<exists>c. cursor_after w tr = Some c \<and> (\<forall>j \<in> set (delivered tr). j < c))"

definition between_passes :: "world \<Rightarrow> int \<Rightarrow> effect list \<Rightarrow> bool" where
  "between_passes w i tr =
     (crash_safe w tr \<and> (tr = [] \<or> last tr \<noteq> TruncatedCounter) \<and>
      ((\<exists>e. SaveRaised e \<in> set tr) \<or> settled w tr) \<and>
      (\<forall>j \<in> set (delivered tr). j < i))"

text \<open>The effects that neither send nor touch the counter file.\<close>

fun neutral :: "effect \<Rightarrow> bool" where
  "neutral (Sendmail i m r) = (r \<noteq> None)"
| "neutral TruncatedCounter = False"
| "neutral (SavedCounter c) = False"
| "neutral (SaveRaised e) = False"
| "neutral e = True"

section \<open>Example inputs\<close>

text \<open>A fresh process: no counter file, no configuration file, nothing logged.\<close>

definition ex_world :: world where
  "ex_world = \<lparr>counter_file = None, config_file = None, LOGS = [], threads = [], trace = []\<rparr>"

text \<open>
  Three recipients, a batch size of two, a server that accepts every message, and the same
  with a server that refuses the message for index 0.
\<close>

definition ex_addresses :: "string list" where
  "ex_addresses = [''john.doe@x.com'', ''a1b2@x.com'', ''c@y.org'']"

definition ex_env :: env where
  "ex_env = \<lparr>read_csv = Emails ex_addresses, smtp_login = None,
             attach_exists = (\<lambda>i. False), attach_error = (\<lambda>i. None),
             sendmail = (\<lambda>i. None)\<rparr>"


definition ex_config :: dict where
  "ex_config = [(''email'', PStr ''me@x.org''), (''password'', PStr ''abcdabcdabcdabcd''),
                (''stopper'', PInt 2), (''default_file'', PStr ''list.csv''),
                (''resume_file'', PNone), (''template_name'', PStr ''custom''),
                (''template_subject'', PStr ''Hello''),
                (''template_body'', PStr ''Dear {greeting},'')]"

text \<open>The same process after all three recipients were sent to.\<close>

definition sent_world :: world where
  "sent_world = ex_world\<lparr>counter_file := Some (Json (PDict [(''counter'', PInt 3)]))\<rparr>"

text \<open>
  A configuration with the sender, the password and the recipient file only; and one whose
  template names a placeholder that \<^verbatim>\<open>format\<close> is not given.
\<close>

definition bare_config :: dict where
  "bare_config = [(''email'', PStr ''me@x.org''), (''password'', PStr ''abcdabcdabcdabcd''),
                  (''default_file'', PStr ''list.csv'')]"

definition bad_template_config :: dict where
  "bad_template_config =
     [(''email'', PStr ''me@x.org''), (''password'', PStr ''abcdabcdabcdabcd''),
      (''stopper'', PInt 2), (''default_file'', PStr ''list.csv''),
      (''template_subject'', PStr ''Hello''), (''template_body'', PStr ''Dear {name},'')]"

text \<open>
  A process with a stored configuration and a counter of 2; and the same process while one
  background run is still active.
\<close>

definition status_world :: world where
  "status_world =
     ex_world\<lparr>counter_file := Some (Json (PDict [(''counter'', PInt 2)])),
               config_file := Some (Json (PDict [(''email'', PStr ''me@x.org''),
                                                 (''password'', PStr ''abcdabcdabcdabcd''),
                                                 (''stopper'', PInt 5),
                                                 (''default_file'', PStr ''list.csv'')]))\<rparr>"

definition busy_world :: world where
  "busy_world = status_world\<lparr>threads := [ex_config]\<rparr>"

text \<open>A storage on which every write of the counter file raises after the file was opened.\<close>

definition full_disk :: storage where
  "full_disk = (\<lambda>c. WriteRaises ''No space left on device'')"

section \<open>Lemmas about the state and the loop\<close>

lemma effect_simps [simp]:
  "counter_file (effect e w) = counter_file w"
  "config_file (effect e w) = config_file w"
  "LOGS (effect e w) = LOGS w"
  "threads (effect e w) = threads w"
  "trace (effect e w) = trace w @ [e]"
  by (simp_all add: effect_def)

lemma log_message_simps [simp]:
  "counter_file (log_message m w) = counter_file w"
  "config_file (log_message m w) = config_file w"
  "LOGS (log_message m w) = LOGS w @ [m]"
  "threads (log_message m w) = threads w"
  "trace (log_message m w) = trace w @ [Logged m]"
  by (simp_all add: log_message_def)

lemma save_counter_simps [simp]:
  "counter_file (save_counter c w) = stored c"
  "config_file (save_counter c w) = config_file w"
  "LOGS (save_counter c w) = LOGS w"
  "threads (save_counter c w) = threads w"
  "trace (save_counter c w) = trace w @ [TruncatedCounter, SavedCounter c]"
  by (simp_all add: save_counter_def save_counter_with_def truncate_counter_def reliable_def
      stored_def)

lemma save_counter_with_reliable [simp]:
  "save_counter_with reliable c w = (None, save_counter c w)"
  by (simp add: save_counter_def save_counter_with_def reliable_def)

lemma send_loop_simps [simp]:
  "send_loop E ctx [] w = (Normal, w)"
  "send_loop E ctx (i # is) w =
     (case send_one E ctx i w of
        (Normal, w') \<Rightarrow> send_loop E ctx is w'
      | (r, w') \<Rightarrow> (r, w'))"
  by (simp_all add: send_loop_def send_one_def split: prod.splits outcome.splits)

lemma attempts_append [simp]: "attempts (xs @ ys) = attempts xs @ attempts ys"
  by (induction xs rule: attempts.induct) auto

lemma delivered_append [simp]: "delivered (xs @ ys) = delivered xs @ delivered ys"
  by (induction xs rule: delivered.induct) auto

lemma attach_resume_facts:
  assumes "attach_resume E ctx i receiver w = (att, w1)"
  shows "counter_file w1 = counter_file w"
    and "\<exists>ws. trace w1 = trace w @ map Logged ws \<and> LOGS w1 = LOGS w @ ws"
  using assms by (auto simp: attach_resume_def split: if_splits option.splits)

lemma send_one_raised:
  assumes "send_one E ctx i w = (r, w')" and "r \<noteq> Normal"
  shows "w' = w"
  using assms
  by (auto simp: send_one_def send_one_with_def Let_def split: sum.splits fmt_result.splits prod.splits option.splits)

lemma send_one_normal:
  assumes "send_one E ctx i w = (Normal, w')"
  shows "\<exists>receiver m ws.
           py_index (email_list ctx) i = Inr receiver \<and>
           trace w' = trace w @ map Logged ws @ Sendmail i m (sendmail E i) # final_events E ctx i receiver \<and>
           LOGS w' = LOGS w @ ws @
             [case sendmail E i of None \<Rightarrow> Success receiver (i + 1) (length (email_list ctx))
              | Some e \<Rightarrow> SendError receiver e] \<and>
           counter_file w' = (if ok E i then stored (i + 1) else counter_file w)"
proof -
  from assms obtain receiver sender body att w1 where
    r: "py_index (email_list ctx) i = Inr receiver" and
    a: "attach_resume E ctx i receiver w = (att, w1)" and
    w': "w' = (case sendmail E i of
            None \<Rightarrow> effect (Slept 5) (save_counter (i + 1)
                (log_message (Success receiver (i + 1) (length (email_list ctx)))
                   (effect (Sendmail i \<lparr>mail_from = sender, mail_to = receiver,
                                mail_subject = template_subject ctx, mail_body = body,
                                mail_attached = att\<rparr> (sendmail E i)) w1)))
          | Some e \<Rightarrow> log_message (SendError receiver e)
                   (effect (Sendmail i \<lparr>mail_from = sender, mail_to = receiver,
                                mail_subject = template_subject ctx, mail_body = body,
                                mail_attached = att\<rparr> (sendmail E i)) w1))"
    by (auto simp: send_one_def send_one_with_def Let_def split: sum.splits fmt_result.splits prod.splits option.splits)
  from attach_resume_facts[OF a] obtain ws where
    ws: "trace w1 = trace w @ map Logged ws" "LOGS w1 = LOGS w @ ws" "counter_file w1 = counter_file w"
    by auto
  show ?thesis
    apply (rule exI[of _ receiver])
    apply (rule exI[of _ "\<lparr>mail_from = sender, mail_to = receiver,
                                mail_subject = template_subject ctx, mail_body = body,
                                mail_attached = att\<rparr>"])
    apply (rule exI[of _ ws])
    using r ws w' by (auto simp: final_events_def ok_def split: option.splits)
qed

lemma attempts_Logged [simp]: "attempts (map Logged ws) = []"
  by (induction ws) auto

lemma delivered_Logged [simp]: "delivered (map Logged ws) = []"
  by (induction ws) auto

lemma attempts_final [simp]: "attempts (final_events E ctx i r) = []"
  by (auto simp: final_events_def split: option.splits)

lemma delivered_final [simp]: "delivered (final_events E ctx i r) = []"
  by (auto simp: final_events_def split: option.splits)

lemma delivered_Sendmail: "delivered (Sendmail i m r # es) = (if r = None then i # delivered es else delivered es)"
  by (cases r) auto

lemma send_one_normal_attempts:
  assumes "send_one E ctx i w = (Normal, w')"
  shows "attempts (trace w') = attempts (trace w) @ [i]"
    and "delivered (trace w') = delivered (trace w) @ (if ok E i then [i] else [])"
    and "counter_file w' = (if ok E i then stored (i + 1) else counter_file w)"
  using send_one_normal[OF assms] by (auto simp: delivered_Sendmail ok_def)


lemma send_loop_any:
  assumes "send_loop E ctx is w = (r, w')"
  shows "\<exists>ks rest. is = ks @ rest \<and> (r = Normal \<longrightarrow> rest = []) \<and>
         attempts (trace w') = attempts (trace w) @ ks \<and>
         delivered (trace w') = delivered (trace w) @ filter (ok E) ks \<and>
         counter_file w' = (if filter (ok E) ks = [] then counter_file w
                            else stored (last (filter (ok E) ks) + 1))"
  using assms
proof (induction "is" arbitrary: w)
  case Nil
  then show ?case by simp
next
  case (Cons i "is")
  obtain r1 w1 where s1: "send_one E ctx i w = (r1, w1)" by (cases "send_one E ctx i w")
  show ?case
  proof (cases "r1 = Normal")
    case True
    with Cons.prems s1 have l: "send_loop E ctx is w1 = (r, w')" by simp
    from Cons.IH[OF l] obtain ks rest where
      k: "is = ks @ rest" "r = Normal \<longrightarrow> rest = []"
         "attempts (trace w') = attempts (trace w1) @ ks"
         "delivered (trace w') = delivered (trace w1) @ filter (ok E) ks"
         "counter_file w' = (if filter (ok E) ks = [] then counter_file w1
                            else stored (last (filter (ok E) ks) + 1))" by blast
    from send_one_normal_attempts[OF s1[unfolded True]] k
    have "i # is = (i # ks) @ rest \<and> (r = Normal \<longrightarrow> rest = []) \<and>
         attempts (trace w') = attempts (trace w) @ (i # ks) \<and>
         delivered (trace w') = delivered (trace w) @ filter (ok E) (i # ks) \<and>
         counter_file w' = (if filter (ok E) (i # ks) = [] then counter_file w
                            else stored (last (filter (ok E) (i # ks)) + 1))"
      by auto
    then show ?thesis by blast
  next
    case False
    with Cons.prems s1 have "r = r1" "w' = w1" by (cases r1; auto)+
    with send_one_raised[OF s1 False] False
    have "i # is = [] @ (i # is) \<and> (r = Normal \<longrightarrow> i # is = []) \<and>
         attempts (trace w') = attempts (trace w) @ [] \<and>
         delivered (trace w') = delivered (trace w) @ filter (ok E) [] \<and>
         counter_file w' = (if filter (ok E) [] = [] then counter_file w
                            else stored (last (filter (ok E) []) + 1))"
      by auto
    then show ?thesis by blast
  qed
qed

lemma logged_append [simp]: "logged (xs @ ys) = logged xs @ logged ys"
  by (induction xs rule: logged.induct) auto

lemma logged_Logged [simp]: "logged (map Logged ws) = ws"
  by (induction ws) auto

lemma saved_at_once_Nil [simp]: "saved_at_once []"
  by (simp add: saved_at_once_def)

lemma saved_at_once_append:
  assumes "saved_at_once a" and "saved_at_once b"
  shows "saved_at_once (a @ b)"
  unfolding saved_at_once_def
proof (intro allI impI)
  fix pre post i m
  assume eq: "a @ b = pre @ Sendmail i m None # post"
  then obtain us where
    "(a = pre @ us \<and> us @ b = Sendmail i m None # post) \<or>
     (a @ us = pre \<and> b = us @ Sendmail i m None # post)"
    by (auto simp: append_eq_append_conv2)
  then show "\<exists>msg post'. post = Logged msg # TruncatedCounter # SavedCounter (i + 1) #
          Slept 5 # post'"
  proof
    assume c: "a = pre @ us \<and> us @ b = Sendmail i m None # post"
    show ?thesis
    proof (cases us)
      case Nil
      with c have "b = [] @ Sendmail i m None # post" by simp
      with assms(2) show ?thesis unfolding saved_at_once_def by blast
    next
      case (Cons u us')
      with c have u: "a = pre @ Sendmail i m None # us'" "post = us' @ b" by auto
      with assms(1) obtain msg p where "us' = Logged msg # TruncatedCounter # SavedCounter (i + 1) #
          Slept 5 # p"
        unfolding saved_at_once_def by blast
      with u show ?thesis by simp
    qed
  next
    assume "a @ us = pre \<and> b = us @ Sendmail i m None # post"
    with assms(2) show ?thesis unfolding saved_at_once_def by blast
  qed
qed

lemma saved_at_once_Logged: "saved_at_once (map Logged ws)"
  unfolding saved_at_once_def
proof (intro allI impI)
  fix pre post i m
  assume "map Logged ws = pre @ Sendmail i m None # post"
  then have "Sendmail i m None \<in> set (map Logged ws)" by simp
  then have False by auto
  then show "\<exists>msg post'. post = Logged msg # TruncatedCounter # SavedCounter (i + 1) #
          Slept 5 # post'" ..
qed

lemma saved_at_once_single:
  assumes "\<And>i m. e \<noteq> Sendmail i m None"
  shows "saved_at_once [e]"
  unfolding saved_at_once_def using assms by (auto simp: Cons_eq_append_conv)

lemma saved_at_once_block:
  "saved_at_once (Sendmail i m (sendmail E i) # final_events E ctx i receiver)"
  unfolding saved_at_once_def final_events_def
  by (auto simp: Cons_eq_append_conv split: option.splits)

lemma send_one_trace:
  assumes "send_one E ctx i w = (r, w')"
  shows "\<exists>new. trace w' = trace w @ new \<and> LOGS w' = LOGS w @ logged new \<and> saved_at_once new"
proof (cases "r = Normal")
  case True
  from send_one_normal[OF assms[unfolded True]] obtain receiver m ws where
    t: "trace w' = trace w @ map Logged ws @ Sendmail i m (sendmail E i) # final_events E ctx i receiver"
    and l: "LOGS w' = LOGS w @ ws @
             [case sendmail E i of None \<Rightarrow> Success receiver (i + 1) (length (email_list ctx))
              | Some e \<Rightarrow> SendError receiver e]" by blast
  have "saved_at_once (map Logged ws @ Sendmail i m (sendmail E i) # final_events E ctx i receiver)"
    by (intro saved_at_once_append saved_at_once_Logged saved_at_once_block)
  moreover have "logged (map Logged ws @ Sendmail i m (sendmail E i) # final_events E ctx i receiver)
     = ws @ [case sendmail E i of None \<Rightarrow> Success receiver (i + 1) (length (email_list ctx))
              | Some e \<Rightarrow> SendError receiver e]"
    by (auto simp: final_events_def split: option.splits)
  ultimately show ?thesis using t l by auto
next
  case False
  from send_one_raised[OF assms False] show ?thesis by (intro exI[of _ "[]"]) simp
qed

lemma send_loop_trace:
  assumes "send_loop E ctx is w = (r, w')"
  shows "\<exists>new. trace w' = trace w @ new \<and> LOGS w' = LOGS w @ logged new \<and> saved_at_once new"
  using assms
proof (induction "is" arbitrary: w)
  case Nil
  then show ?case by (intro exI[of _ "[]"]) simp
next
  case (Cons i "is")
  obtain r1 w1 where s1: "send_one E ctx i w = (r1, w1)" by (cases "send_one E ctx i w")
  from send_one_trace[OF s1] obtain n1 where
    n1: "trace w1 = trace w @ n1" "LOGS w1 = LOGS w @ logged n1" "saved_at_once n1" by blast
  show ?case
  proof (cases "r1 = Normal")
    case True
    with Cons.prems s1 have l: "send_loop E ctx is w1 = (r, w')" by simp
    from Cons.IH[OF l] obtain n2 where
      n2: "trace w' = trace w1 @ n2" "LOGS w' = LOGS w1 @ logged n2" "saved_at_once n2" by blast
    from n1 n2 have "trace w' = trace w @ (n1 @ n2) \<and> LOGS w' = LOGS w @ logged (n1 @ n2) \<and>
        saved_at_once (n1 @ n2)"
      by (simp add: saved_at_once_append)
    then show ?thesis by blast
  next
    case False
    with Cons.prems s1 have "w' = w1" by (cases r1; auto)
    with n1 show ?thesis by blast
  qed
qed


lemma task_reaches:
  assumes "stopper_of config = Inr k" and "config_complete config"
    and "resume_of config = Inr p" and "read_csv E = Emails xs"
  shows "send_emails_task E config w =
           send_batch E (run_ctx_of config p xs) k (loaded_world config xs w)"
  using assms
  by (simp add: send_emails_task_def send_emails_task_with_def send_batch_def stopper_of_def config_complete_def resume_of_def
      run_ctx_of_def loaded_world_def Let_def)

lemma task_early:
  assumes "send_emails_task E config w = (r, w')"
    and "\<not> (\<exists>k p xs. stopper_of config = Inr k \<and> config_complete config \<and>
              resume_of config = Inr p \<and> read_csv E = Emails xs)"
  shows "\<exists>ms. trace w' = trace w @ map Logged (Started # ms) \<and> LOGS w' = Started # ms \<and>
              counter_file w' = counter_file w \<and> BatchFinished \<notin> set ms \<and> AllSent \<notin> set ms"
proof -
  have "w' = log_message Started (w\<lparr>LOGS := []\<rparr>) \<or>
        (\<exists>m. m \<noteq> BatchFinished \<and> m \<noteq> AllSent \<and> w' = log_message m (log_message Started (w\<lparr>LOGS := []\<rparr>)))"
    using assms
    by (auto simp: send_emails_task_def send_emails_task_with_def send_batch_def stopper_of_def config_complete_def resume_of_def
        Let_def split: sum.splits if_splits csv_outcome.splits)
  then show ?thesis
  proof
    assume "w' = log_message Started (w\<lparr>LOGS := []\<rparr>)"
    then have "trace w' = trace w @ map Logged (Started # []) \<and> LOGS w' = Started # [] \<and>
              counter_file w' = counter_file w \<and> BatchFinished \<notin> set [] \<and> AllSent \<notin> set []" by simp
    then show ?thesis by blast
  next
    assume "\<exists>m. m \<noteq> BatchFinished \<and> m \<noteq> AllSent \<and> w' = log_message m (log_message Started (w\<lparr>LOGS := []\<rparr>))"
    then obtain m where "m \<noteq> BatchFinished" "m \<noteq> AllSent" "w' = log_message m (log_message Started (w\<lparr>LOGS := []\<rparr>))" by blast
    then have "trace w' = trace w @ map Logged (Started # [m]) \<and> LOGS w' = Started # [m] \<and>
              counter_file w' = counter_file w \<and> BatchFinished \<notin> set [m] \<and> AllSent \<notin> set [m]" by simp
    then show ?thesis by blast
  qed
qed

lemma send_loop_run:
  assumes "send_loop E ctx is w = (r, w')"
  shows "\<exists>new ks rest. trace w' = trace w @ new \<and> LOGS w' = LOGS w @ logged new \<and>
           saved_at_once new \<and> is = ks @ rest \<and> (r = Normal \<longrightarrow> rest = []) \<and>
           attempts new = ks \<and> delivered new = filter (ok E) ks \<and>
           counter_file w' = (if filter (ok E) ks = [] then counter_file w
                              else stored (last (filter (ok E) ks) + 1))"
proof -
  from send_loop_trace[OF assms] obtain new where
    n: "trace w' = trace w @ new" "LOGS w' = LOGS w @ logged new" "saved_at_once new" by blast
  from send_loop_any[OF assms] obtain ks rest where
    k: "is = ks @ rest" "r = Normal \<longrightarrow> rest = []"
       "attempts (trace w') = attempts (trace w) @ ks"
       "delivered (trace w') = delivered (trace w) @ filter (ok E) ks"
       "counter_file w' = (if filter (ok E) ks = [] then counter_file w
                              else stored (last (filter (ok E) ks) + 1))" by blast
  from n(1) k(3,4) have "attempts new = ks" "delivered new = filter (ok E) ks" by simp_all
  with n k show ?thesis by blast
qed

lemma send_batch_exhausted:
  assumes "load_counter w = Inr v" and "as_int v = Some s"
    and "int (length (email_list ctx)) \<le> s"
  shows "send_batch E ctx k w = (Normal, log_message AllSent w)"
  using assms by (simp add: send_batch_def send_batch_with_def send_loop_def)

lemma send_batch_no_login:
  assumes "load_counter w = Inr v" and "as_int v = Some s"
    and "s < int (length (email_list ctx))" and "smtp_login E = Some e"
  shows "send_batch E ctx k w =
           (Normal, log_message (ConnectFailed e) (effect (SmtpLogin (Some e))
              (log_message (Preparing v (end_counter s k (email_list ctx) - 1)) w)))"
  using assms by (simp add: send_batch_def send_batch_with_def send_loop_def Let_def)

lemma send_batch_loop:
  assumes "load_counter w = Inr v" and "as_int v = Some s"
    and "s < int (length (email_list ctx))" and "smtp_login E = None"
  shows "send_batch E ctx k w =
           (case send_loop E ctx (py_range s (end_counter s k (email_list ctx)))
                   (connected_world v (end_counter s k (email_list ctx) - 1) w) of
              (Normal, w3) \<Rightarrow> (Normal, log_message BatchFinished (effect SmtpQuit w3))
            | (r, w3) \<Rightarrow> (r, w3))"
  using assms by (simp add: send_batch_def send_batch_with_def send_loop_def Let_def connected_world_def)

lemma saved_at_once_list:
  assumes "\<And>i m. Sendmail i m None \<notin> set es"
  shows "saved_at_once es"
  unfolding saved_at_once_def
proof (intro allI impI)
  fix pre post i m
  assume "es = pre @ Sendmail i m None # post"
  then have "Sendmail i m None \<in> set es" by simp
  with assms have False by blast
  then show "\<exists>msg post'. post = Logged msg # TruncatedCounter # SavedCounter (i + 1) #
          Slept 5 # post'" ..
qed

lemma send_batch_run:
  assumes "send_batch E ctx k w = (r, w')"
  shows "\<exists>new ks. trace w' = trace w @ new \<and> LOGS w' = LOGS w @ logged new \<and>
           saved_at_once new \<and> attempts new = ks \<and> delivered new = filter (ok E) ks \<and>
           counter_file w' = (if filter (ok E) ks = [] then counter_file w
                              else stored (last (filter (ok E) ks) + 1)) \<and>
           (ks = [] \<or> (\<exists>v s rest. load_counter w = Inr v \<and> as_int v = Some s \<and>
                  py_range s (end_counter s k (email_list ctx)) = ks @ rest))"
proof -
  let ?goal = "\<lambda>new ks. trace w' = trace w @ new \<and> LOGS w' = LOGS w @ logged new \<and>
           saved_at_once new \<and> attempts new = ks \<and> delivered new = filter (ok E) ks \<and>
           counter_file w' = (if filter (ok E) ks = [] then counter_file w
                              else stored (last (filter (ok E) ks) + 1)) \<and>
           (ks = [] \<or> (\<exists>v s rest. load_counter w = Inr v \<and> as_int v = Some s \<and>
                  py_range s (end_counter s k (email_list ctx)) = ks @ rest))"
  consider
      (raise) "w' = w"
    | (exhausted) v s where "load_counter w = Inr v" "as_int v = Some s"
        "int (length (email_list ctx)) \<le> s"
    | (nologin) v s e where "load_counter w = Inr v" "as_int v = Some s"
        "s < int (length (email_list ctx))" "smtp_login E = Some e"
    | (loop) v s where "load_counter w = Inr v" "as_int v = Some s"
        "s < int (length (email_list ctx))" "smtp_login E = None"
    using assms
    by (cases "load_counter w"; cases "as_int (projr (load_counter w))"; cases "smtp_login E";
        cases "the (as_int (projr (load_counter w))) < int (length (email_list ctx))")
       (auto simp: send_batch_def send_batch_with_def send_loop_def)
  then show ?thesis
  proof cases
    case raise
    then have "?goal [] []" by simp
    then show ?thesis by blast
  next
    case exhausted
    from send_batch_exhausted[OF this] assms have "w' = log_message AllSent w" by simp
    then have "?goal [Logged AllSent] []" by (simp add: saved_at_once_list)
    then show ?thesis by blast
  next
    case nologin
    from send_batch_no_login[OF this] assms
    have "w' = log_message (ConnectFailed e) (effect (SmtpLogin (Some e))
              (log_message (Preparing v (end_counter s k (email_list ctx) - 1)) w))" by simp
    then have "?goal [Logged (Preparing v (end_counter s k (email_list ctx) - 1)),
                      SmtpLogin (Some e), Logged (ConnectFailed e)] []"
      by (simp add: saved_at_once_list)
    then show ?thesis by blast
  next
    case loop
    let ?w2 = "connected_world v (end_counter s k (email_list ctx) - 1) w"
    let ?is = "py_range s (end_counter s k (email_list ctx))"
    let ?pre = "[Logged (Preparing v (end_counter s k (email_list ctx) - 1)), SmtpLogin None,
                 Logged Connected]"
    obtain r3 w3 where l: "send_loop E ctx ?is ?w2 = (r3, w3)"
      by (cases "send_loop E ctx ?is ?w2")
    from send_loop_run[OF l] obtain new ks rest where
      n: "trace w3 = trace ?w2 @ new" "LOGS w3 = LOGS ?w2 @ logged new" "saved_at_once new"
         "?is = ks @ rest" "attempts new = ks" "delivered new = filter (ok E) ks"
         "counter_file w3 = (if filter (ok E) ks = [] then counter_file ?w2
                              else stored (last (filter (ok E) ks) + 1))" by blast
    have w2: "trace ?w2 = trace w @ ?pre" "LOGS ?w2 = LOGS w @ logged ?pre"
      "counter_file ?w2 = counter_file w" "saved_at_once ?pre"
      by (simp_all add: connected_world_def saved_at_once_list)
    from send_batch_loop[OF loop] assms l
    have w': "w' = (if r3 = Normal then log_message BatchFinished (effect SmtpQuit w3) else w3)"
      by (cases r3) auto
    let ?post = "if r3 = Normal then [SmtpQuit, Logged BatchFinished] else []"
    have post: "saved_at_once ?post" by (simp add: saved_at_once_list)
    have sao: "saved_at_once (?pre @ new @ ?post)"
      by (intro saved_at_once_append w2(4) n(3) post)
    have "?goal (?pre @ new @ ?post) ks"
      using n w2(1-3) w' loop sao by auto
    then show ?thesis by blast
  qed
qed

lemma load_counter_cong:
  "counter_file w1 = counter_file w2 \<Longrightarrow> load_counter w1 = load_counter w2"
  by (simp add: load_counter_def)

lemma loaded_world_simps [simp]:
  "trace (loaded_world config xs w) =
     trace w @ [Logged Started,
                Logged (LoadedEmails (length xs) (dict_get config ''default_file'' PNone))]"
  "LOGS (loaded_world config xs w) =
     [Started, LoadedEmails (length xs) (dict_get config ''default_file'' PNone)]"
  "counter_file (loaded_world config xs w) = counter_file w"
  "load_counter (loaded_world config xs w) = load_counter w"
  by (simp_all add: loaded_world_def load_counter_def)

lemma task_run:
  assumes "send_emails_task E config w = (r, w')"
  shows "\<exists>new ks. trace w' = trace w @ new \<and> LOGS w' = logged new \<and>
           saved_at_once new \<and> attempts new = ks \<and> delivered new = filter (ok E) ks \<and>
           counter_file w' = (if filter (ok E) ks = [] then counter_file w
                              else stored (last (filter (ok E) ks) + 1)) \<and>
           (ks = [] \<or> (config_complete config \<and>
              (\<exists>k xs v s rest. stopper_of config = Inr k \<and> read_csv E = Emails xs \<and>
                  load_counter w = Inr v \<and> as_int v = Some s \<and>
                  py_range s (end_counter s k xs) = ks @ rest)))"
proof (cases "\<exists>k p xs. stopper_of config = Inr k \<and> config_complete config \<and>
              resume_of config = Inr p \<and> read_csv E = Emails xs")
  case False
  from task_early[OF assms False] obtain ms where
    "trace w' = trace w @ map Logged (Started # ms)" "LOGS w' = Started # ms"
    "counter_file w' = counter_file w" by blast
  then have "trace w' = trace w @ map Logged (Started # ms) \<and>
     LOGS w' = logged (map Logged (Started # ms)) \<and>
     saved_at_once (map Logged (Started # ms)) \<and> attempts (map Logged (Started # ms)) = [] \<and>
     delivered (map Logged (Started # ms)) = filter (ok E) [] \<and>
     counter_file w' = (if filter (ok E) [] = [] then counter_file w
                              else stored (last (filter (ok E) []) + 1))"
    using saved_at_once_Logged[of "Started # ms"] attempts_Logged[of "Started # ms"]
      delivered_Logged[of "Started # ms"] logged_Logged[of "Started # ms"]
    by simp
  then show ?thesis by blast
next
  case True
  then obtain k p xs where h: "stopper_of config = Inr k" "config_complete config"
    "resume_of config = Inr p" "read_csv E = Emails xs" by blast
  let ?w1 = "loaded_world config xs w"
  let ?pre = "[Logged Started,
               Logged (LoadedEmails (length xs) (dict_get config ''default_file'' PNone))]"
  from task_reaches[OF h] assms
  have b: "send_batch E (run_ctx_of config p xs) k ?w1 = (r, w')" by simp
  from send_batch_run[OF b] obtain new ks where
    n: "trace w' = trace ?w1 @ new" "LOGS w' = LOGS ?w1 @ logged new" "saved_at_once new"
      "attempts new = ks" "delivered new = filter (ok E) ks"
      "counter_file w' = (if filter (ok E) ks = [] then counter_file ?w1
                              else stored (last (filter (ok E) ks) + 1))"
      "ks = [] \<or> (\<exists>v s rest. load_counter ?w1 = Inr v \<and> as_int v = Some s \<and>
          py_range s (end_counter s k (email_list (run_ctx_of config p xs))) = ks @ rest)"
    by blast
  have sao: "saved_at_once (?pre @ new)"
    by (intro saved_at_once_append n(3) saved_at_once_list) simp
  have el: "email_list (run_ctx_of config p xs) = xs" by (simp add: run_ctx_of_def)
  have "trace w' = trace w @ (?pre @ new) \<and> LOGS w' = logged (?pre @ new) \<and>
           saved_at_once (?pre @ new) \<and> attempts (?pre @ new) = ks \<and>
           delivered (?pre @ new) = filter (ok E) ks \<and>
           counter_file w' = (if filter (ok E) ks = [] then counter_file w
                              else stored (last (filter (ok E) ks) + 1)) \<and>
           (ks = [] \<or> (config_complete config \<and>
              (\<exists>k xs v s rest. stopper_of config = Inr k \<and> read_csv E = Emails xs \<and>
                  load_counter w = Inr v \<and> as_int v = Some s \<and>
                  py_range s (end_counter s k xs) = ks @ rest)))"
    using n(1,2,4,5,6) n(7)[unfolded el] sao h by auto
  then show ?thesis by blast
qed

lemma new_trace_append: "trace w' = trace w @ new \<Longrightarrow> new_trace w w' = new"
  by (simp add: new_trace_def)

lemma py_range_set: "set (py_range a b) = {i. a \<le> i \<and> i < b}"
  by (auto simp: py_range_def)

lemma py_range_sorted: "sorted (py_range a b)" "distinct (py_range a b)"
  by (simp_all add: py_range_def)

lemma py_range_length: "length (py_range a b) = nat (b - a)"
  by (simp add: py_range_def)














subsection \<open>Any storage: the counter file at every point of a run\<close>

lemma counter_file_after_append [simp]:
  "counter_file_after (a @ b) f = counter_file_after b (counter_file_after a f)"
  by (induction a f rule: counter_file_after.induct) auto

lemma counter_file_after_neutral [simp]:
  "neutral e \<Longrightarrow> counter_file_after [e] f = f"
  by (cases e) auto

lemma delivered_neutral [simp]: "neutral e \<Longrightarrow> delivered [e] = []"
  by (cases e) auto

lemma cursor_after_snoc_neutral [simp]:
  "neutral e \<Longrightarrow> cursor_after w (tr @ [e]) = cursor_after w tr"
  by (simp add: cursor_after_def)

lemma lost_sends_snoc_neutral [simp]:
  "neutral e \<Longrightarrow> lost_sends w (tr @ [e]) = lost_sends w tr"
  by (simp add: lost_sends_def)

lemma lost_sends_Nil [simp]: "lost_sends w [] = []"
  by (simp add: lost_sends_def)

lemma crash_safe_Nil [simp]: "crash_safe w []"
  by (simp add: crash_safe_def)

lemma crash_safe_snoc:
  assumes "crash_safe w tr"
    and "crash_point (tr @ [e]) \<Longrightarrow> length (lost_sends w (tr @ [e])) \<le> 1"
  shows "crash_safe w (tr @ [e])"
  unfolding crash_safe_def
proof (intro allI impI)
  fix pre post
  assume eq: "tr @ [e] = pre @ post" and cp: "crash_point pre"
  show "length (lost_sends w pre) \<le> 1"
  proof (cases post rule: rev_cases)
    case Nil
    with eq cp assms(2) show ?thesis by simp
  next
    case (snoc post' x)
    with eq have "tr = pre @ post'" by simp
    with assms(1) cp show ?thesis unfolding crash_safe_def by blast
  qed
qed

lemma settled_lost: "settled w tr \<Longrightarrow> lost_sends w tr = []"
  by (auto simp: settled_def lost_sends_def filter_empty_conv)

lemma crash_point_snoc_failed:
  "SaveRaised x \<in> set tr \<Longrightarrow> \<not> crash_point (tr @ es)"
  by (auto simp: crash_point_def)

lemma between_passes_neutral:
  assumes "between_passes w i tr" and "neutral e"
  shows "between_passes w i (tr @ [e])"
proof -
  from assms(1) have cs: "crash_safe w tr" and st: "(\<exists>x. SaveRaised x \<in> set tr) \<or> settled w tr"
    and d: "\<forall>j \<in> set (delivered tr). j < i"
    by (simp_all add: between_passes_def)
  have "length (lost_sends w (tr @ [e])) \<le> 1" if "crash_point (tr @ [e])"
  proof -
    from that have "\<not> (\<exists>x. SaveRaised x \<in> set tr)" by (auto simp: crash_point_def)
    with st have "settled w tr" by blast
    with assms(2) show ?thesis by (simp add: settled_lost)
  qed
  with cs have 1: "crash_safe w (tr @ [e])" by (rule crash_safe_snoc)
  have 2: "last (tr @ [e]) \<noteq> TruncatedCounter" using assms(2) by (cases e) auto
  have 3: "(\<exists>x. SaveRaised x \<in> set (tr @ [e])) \<or> settled w (tr @ [e])"
    using st assms(2) by (auto simp: settled_def)
  have 4: "\<forall>j \<in> set (delivered (tr @ [e])). j < i" using d assms(2) by simp
  from 1 2 3 4 show ?thesis by (simp add: between_passes_def)
qed

lemma between_passes_neutrals:
  assumes "between_passes w i tr" and "list_all neutral es"
  shows "between_passes w i (tr @ es)"
  using assms(2)
proof (induction es rule: rev_induct)
  case Nil
  with assms(1) show ?case by simp
next
  case (snoc e es)
  then have "between_passes w i (tr @ es)" "neutral e" by simp_all
  then have "between_passes w i ((tr @ es) @ [e])" by (rule between_passes_neutral)
  then show ?case by simp
qed


lemma crash_safe_failed:
  assumes "crash_safe w tr" and "SaveRaised x \<in> set tr"
  shows "crash_safe w (tr @ es)"
proof (induction es rule: rev_induct)
  case Nil
  with assms(1) show ?case by simp
next
  case (snoc e es)
  have n: "\<not> crash_point ((tr @ es) @ [e])"
    using assms(2) by (auto simp: crash_point_def)
  have "crash_safe w ((tr @ es) @ [e])"
    by (rule crash_safe_snoc[OF snoc]) (use n in blast)
  then show ?case by simp
qed

lemma between_passes_mono:
  "between_passes w i tr \<Longrightarrow> i \<le> k \<Longrightarrow> between_passes w k tr"
  by (fastforce simp: between_passes_def)

lemma cursor_after_SavedCounter [simp]:
  "cursor_after w (tr @ [SavedCounter c]) = Some c"
  by (simp add: cursor_after_def load_counter_def py_get_def dict_get_def)

lemma cursor_after_Sendmail [simp]:
  "cursor_after w (tr @ [Sendmail i m r]) = cursor_after w tr"
  by (simp add: cursor_after_def)

lemma delivered_snoc_Sendmail [simp]:
  "delivered (tr @ [Sendmail i m None]) = delivered tr @ [i]"
  by simp

lemma between_passes_pass:
  assumes bp: "between_passes w i tr"
  shows "between_passes w (i + 1) (tr @ Sendmail i m (sendmail E i) # pass_events S E ctx i receiver)"
proof (cases "sendmail E i")
  case (Some e)
  then have "list_all neutral (Sendmail i m (sendmail E i) # pass_events S E ctx i receiver)"
    by (simp add: pass_events_def)
  from between_passes_neutrals[OF bp this] show ?thesis
    by (rule between_passes_mono) simp
next
  case None
  let ?ok = "Logged (Success receiver (i + 1) (length (email_list ctx)))"
  let ?block = "Sendmail i m (sendmail E i) # pass_events S E ctx i receiver"
  from bp have cs: "crash_safe w tr" and nl: "tr = [] \<or> last tr \<noteq> TruncatedCounter"
    and st: "(\<exists>x. SaveRaised x \<in> set tr) \<or> settled w tr"
    and d: "\<forall>j \<in> set (delivered tr). j < i"
    by (simp_all add: between_passes_def)
  have dl: "\<forall>j \<in> set (delivered (tr @ ?block)). j < i + 1"
    using d None by (auto simp: pass_events_def split: write_outcome.splits)
  have lastb: "last (tr @ ?block) \<noteq> TruncatedCounter"
    using None by (simp add: pass_events_def split: write_outcome.splits)
  show ?thesis
  proof (cases "\<exists>x. SaveRaised x \<in> set tr")
    case True
    then obtain x where x: "SaveRaised x \<in> set tr" by blast
    from crash_safe_failed[OF cs x] have "crash_safe w (tr @ ?block)" .
    with x dl lastb show ?thesis by (auto simp: between_passes_def)
  next
    case False
    with st obtain c where c: "cursor_after w tr = Some c" "\<forall>j \<in> set (delivered tr). j < c"
      by (auto simp: settled_def)
    let ?t1 = "tr @ [Sendmail i m None]"
    let ?t2 = "?t1 @ [?ok]"
    have fe: "filter (\<lambda>j. c \<le> j) (delivered tr) = []"
      using c(2) by (auto simp: filter_empty_conv)
    have l1: "length (lost_sends w ?t1) \<le> 1"
      using c(1) fe by (simp add: lost_sends_def)
    then have l2: "length (lost_sends w ?t2) \<le> 1"
      by (simp only: lost_sends_snoc_neutral neutral.simps)
    have c1: "crash_safe w ?t1" by (rule crash_safe_snoc[OF cs]) (rule l1)
    have c2: "crash_safe w ?t2" by (rule crash_safe_snoc[OF c1]) (rule l2)
    show ?thesis
    proof (cases "S (i + 1)")
      case Written
      let ?t3 = "?t2 @ [TruncatedCounter]"
      let ?t4 = "?t3 @ [SavedCounter (i + 1)]"
      let ?t5 = "?t4 @ [Slept 5]"
      have c3: "crash_safe w ?t3"
        by (rule crash_safe_snoc[OF c2]) (auto simp: crash_point_def)
      have "cursor_after w ?t4 = Some (i + 1)" by (rule cursor_after_SavedCounter)
      moreover have "delivered ?t4 = delivered tr @ [i]" by simp
      ultimately have l4: "lost_sends w ?t4 = []"
        using d unfolding lost_sends_def by (auto simp: filter_empty_conv)
      have c4: "crash_safe w ?t4" by (rule crash_safe_snoc[OF c3]) (use l4 in simp)
      from l4 have l5: "lost_sends w ?t5 = []"
        by (simp only: lost_sends_snoc_neutral neutral.simps)
      have c5: "crash_safe w ?t5" by (rule crash_safe_snoc[OF c4]) (use l5 in simp)
      have "cursor_after w ?t5 = Some (i + 1)"
        by (simp only: cursor_after_snoc_neutral neutral.simps cursor_after_SavedCounter)
      moreover have "delivered ?t5 = delivered tr @ [i]" by simp
      ultimately have s5: "settled w ?t5" using d unfolding settled_def by auto
      have e: "tr @ ?block = ?t5" using None Written by (simp add: pass_events_def)
      from c5 s5 dl lastb show ?thesis unfolding e[symmetric] between_passes_def
        by (simp add: e)
    next
      case (OpenRaises x)
      let ?t3 = "?t2 @ [SaveRaised x]"
      have c3: "crash_safe w ?t3"
        by (rule crash_safe_snoc[OF c2]) (auto simp: crash_point_def)
      have f: "SaveRaised x \<in> set ?t3" by simp
      from crash_safe_failed[OF c3 f, of "[Logged (SendError receiver x)]"]
      have c4: "crash_safe w (?t3 @ [Logged (SendError receiver x)])" .
      have e: "tr @ ?block = ?t3 @ [Logged (SendError receiver x)]"
        using None OpenRaises by (simp add: pass_events_def)
      have "\<exists>y. SaveRaised y \<in> set (tr @ ?block)" unfolding e by auto
      with c4 dl lastb show ?thesis unfolding between_passes_def by (simp add: e)
    next
      case (WriteRaises x)
      let ?t3 = "?t2 @ [TruncatedCounter]"
      let ?t4 = "?t3 @ [SaveRaised x]"
      have c3: "crash_safe w ?t3"
        by (rule crash_safe_snoc[OF c2]) (auto simp: crash_point_def)
      have c4: "crash_safe w ?t4"
        by (rule crash_safe_snoc[OF c3]) (auto simp: crash_point_def)
      have f: "SaveRaised x \<in> set ?t4" by simp
      from crash_safe_failed[OF c4 f, of "[Logged (SendError receiver x)]"]
      have c5: "crash_safe w (?t4 @ [Logged (SendError receiver x)])" .
      have e: "tr @ ?block = ?t4 @ [Logged (SendError receiver x)]"
        using None WriteRaises by (simp add: pass_events_def)
      have "\<exists>y. SaveRaised y \<in> set (tr @ ?block)" unfolding e by auto
      with c5 dl lastb show ?thesis unfolding between_passes_def by (simp add: e)
    qed
  qed
qed


lemma delivered_neutrals [simp]: "list_all neutral es \<Longrightarrow> delivered es = []"
proof (induction es)
  case Nil
  then show ?case by simp
next
  case (Cons e es)
  then show ?case by (cases e) auto
qed

lemma counter_file_after_neutrals [simp]:
  "list_all neutral es \<Longrightarrow> counter_file_after es f = f"
proof (induction es)
  case Nil
  then show ?case by simp
next
  case (Cons e es)
  then show ?case by (cases e) auto
qed

lemma crash_safe_undelivered:
  assumes "delivered tr = []"
  shows "crash_safe w tr"
  unfolding crash_safe_def
proof (intro allI impI)
  fix pre post
  assume "tr = pre @ post"
  with assms have "delivered pre = []" by simp
  then show "length (lost_sends w pre) \<le> 1" by (simp add: lost_sends_def)
qed

lemma saved_when_written_append:
  assumes "saved_when_written S a" and "saved_when_written S b"
  shows "saved_when_written S (a @ b)"
  unfolding saved_when_written_def
proof (intro allI impI)
  fix pre post i m
  assume h: "a @ b = pre @ Sendmail i m None # post \<and> S (i + 1) = Written"
  then obtain us where
    "(a = pre @ us \<and> us @ b = Sendmail i m None # post) \<or>
     (a @ us = pre \<and> b = us @ Sendmail i m None # post)"
    by (auto simp: append_eq_append_conv2)
  then show "\<exists>msg post'. post = Logged msg # TruncatedCounter # SavedCounter (i + 1) #
                                 Slept 5 # post'"
  proof
    assume c: "a = pre @ us \<and> us @ b = Sendmail i m None # post"
    show ?thesis
    proof (cases us)
      case Nil
      with c have "b = [] @ Sendmail i m None # post" by simp
      with assms(2) h show ?thesis unfolding saved_when_written_def by blast
    next
      case (Cons u us')
      with c have u: "a = pre @ Sendmail i m None # us'" "post = us' @ b" by auto
      with assms(1) h obtain msg p where
        "us' = Logged msg # TruncatedCounter # SavedCounter (i + 1) # Slept 5 # p"
        unfolding saved_when_written_def by blast
      with u show ?thesis by simp
    qed
  next
    assume "a @ us = pre \<and> b = us @ Sendmail i m None # post"
    with assms(2) h show ?thesis unfolding saved_when_written_def by blast
  qed
qed

lemma saved_when_written_neutrals:
  assumes "list_all neutral es"
  shows "saved_when_written S es"
  unfolding saved_when_written_def
proof (intro allI impI)
  fix pre post i m
  assume "es = pre @ Sendmail i m None # post \<and> S (i + 1) = Written"
  then have "Sendmail i m None \<in> set es" by simp
  with assms have "neutral (Sendmail i m None)" by (auto simp: list_all_iff)
  then have False by simp
  then show "\<exists>msg post'. post = Logged msg # TruncatedCounter # SavedCounter (i + 1) #
                                 Slept 5 # post'" ..
qed

lemma saved_when_written_pass:
  "saved_when_written S (Sendmail i m (sendmail E i) # pass_events S E ctx i receiver)"
  unfolding saved_when_written_def pass_events_def
  by (auto simp: Cons_eq_append_conv split: option.splits write_outcome.splits)

lemma neutral_Logged [simp]: "list_all neutral (map Logged ws)"
  by (induction ws) auto

lemma send_one_with_raised:
  assumes "send_one_with S E ctx i w = (r, w')" and "r \<noteq> Normal"
  shows "w' = w"
  using assms
  by (auto simp: send_one_with_def Let_def
      split: sum.splits fmt_result.splits prod.splits option.splits)

lemma save_counter_with_facts:
  assumes "save_counter_with S c w = (x, w')"
  shows "trace w' = trace w @
           (case S c of Written \<Rightarrow> [TruncatedCounter, SavedCounter c]
            | OpenRaises e \<Rightarrow> [SaveRaised e]
            | WriteRaises e \<Rightarrow> [TruncatedCounter, SaveRaised e])"
    and "counter_file w' =
           (case S c of Written \<Rightarrow> Some (Json (PDict [(''counter'', PInt c)]))
            | OpenRaises e \<Rightarrow> counter_file w
            | WriteRaises e \<Rightarrow> Some NotJson)"
    and "x = (case S c of Written \<Rightarrow> None | OpenRaises e \<Rightarrow> Some e | WriteRaises e \<Rightarrow> Some e)"
    and "LOGS w' = LOGS w"
  using assms
  by (auto simp: save_counter_with_def truncate_counter_def effect_def
      split: write_outcome.splits)

lemma send_one_with_normal:
  assumes "send_one_with S E ctx i w = (Normal, w')"
  shows "\<exists>receiver m ws.
           trace w' = trace w @ map Logged ws @
                        Sendmail i m (sendmail E i) # pass_events S E ctx i receiver \<and>
           counter_file w' =
             counter_file_after (pass_events S E ctx i receiver) (counter_file w)"
proof -
  from assms obtain receiver sender body where
    r: "py_index (email_list ctx) i = Inr receiver" and
    s: "formataddr ''Akash Sakhare'' (sender_email ctx) = Inr sender" and
    b: "format_body (template_body ctx) (''Hi '' @ extract_name receiver) = Formatted body"
    by (auto simp: send_one_with_def split: sum.splits fmt_result.splits)
  obtain att w1 where a: "attach_resume E ctx i receiver w = (att, w1)"
    by (cases "attach_resume E ctx i receiver w")
  from assms r s b a have
    w': "(Normal, w') = (case sendmail E i of
            None \<Rightarrow>
              (case save_counter_with S (i + 1)
                      (log_message (Success receiver (i + 1) (length (email_list ctx)))
                        (effect (Sendmail i \<lparr>mail_from = sender, mail_to = receiver,
                                mail_subject = template_subject ctx, mail_body = body,
                                mail_attached = att\<rparr> (sendmail E i)) w1)) of
                 (None, w3) \<Rightarrow> (Normal, effect (Slept 5) w3)
               | (Some e, w3) \<Rightarrow> (Normal, log_message (SendError receiver e) w3))
          | Some e \<Rightarrow> (Normal, log_message (SendError receiver e)
                   (effect (Sendmail i \<lparr>mail_from = sender, mail_to = receiver,
                                mail_subject = template_subject ctx, mail_body = body,
                                mail_attached = att\<rparr> (sendmail E i)) w1)))"
    by (simp add: send_one_with_def Let_def)
  from attach_resume_facts[OF a] obtain ws where
    ws: "trace w1 = trace w @ map Logged ws" "counter_file w1 = counter_file w"
    by auto
  let ?m = "\<lparr>mail_from = sender, mail_to = receiver,
                                mail_subject = template_subject ctx, mail_body = body,
                                mail_attached = att\<rparr>"
  have "trace w' = trace w @ map Logged ws @
                        Sendmail i ?m (sendmail E i) # pass_events S E ctx i receiver \<and>
           counter_file w' =
             counter_file_after (pass_events S E ctx i receiver) (counter_file w)"
  proof (cases "sendmail E i")
    case (Some e)
    with w' ws show ?thesis by (simp add: pass_events_def)
  next
    case None
    obtain x w3 where sv: "save_counter_with S (i + 1)
                      (log_message (Success receiver (i + 1) (length (email_list ctx)))
                        (effect (Sendmail i ?m (sendmail E i)) w1)) = (x, w3)"
      by (cases "save_counter_with S (i + 1)
                      (log_message (Success receiver (i + 1) (length (email_list ctx)))
                        (effect (Sendmail i ?m (sendmail E i)) w1))")
    note f = save_counter_with_facts[OF sv]
    from w' None sv
    have "w' = (case x of None \<Rightarrow> effect (Slept 5) w3
                | Some e \<Rightarrow> log_message (SendError receiver e) w3)"
      by (cases x) auto
    with f ws None show ?thesis
      by (cases "S (i + 1)") (simp_all add: pass_events_def)
  qed
  then show ?thesis by blast
qed

lemma send_loop_with_run:
  assumes "send_loop_with S E ctx is x = (r, x')"
    and "trace x = trace u @ tr0"
    and "counter_file x = counter_file_after tr0 (counter_file u)"
    and "between_passes u i tr0" and "saved_when_written S tr0"
    and "sorted_wrt (<) is" and "\<forall>k \<in> set is. i \<le> k"
  shows "\<exists>tr1 n. trace x' = trace u @ tr1 \<and>
           counter_file x' = counter_file_after tr1 (counter_file u) \<and>
           between_passes u n tr1 \<and> saved_when_written S tr1"
  using assms
proof (induction "is" arbitrary: x tr0 i)
  case Nil
  then have "trace x' = trace u @ tr0 \<and>
           counter_file x' = counter_file_after tr0 (counter_file u) \<and>
           between_passes u i tr0 \<and> saved_when_written S tr0" by simp
  then show ?case by blast
next
  case (Cons k ks)
  obtain r1 x1 where s1: "send_one_with S E ctx k x = (r1, x1)"
    by (cases "send_one_with S E ctx k x")
  show ?case
  proof (cases "r1 = Normal")
    case False
    with Cons.prems(1) s1 have "x' = x1" by (cases r1; auto)
    with send_one_with_raised[OF s1 False] Cons.prems(2-5)
    have "trace x' = trace u @ tr0 \<and>
           counter_file x' = counter_file_after tr0 (counter_file u) \<and>
           between_passes u i tr0 \<and> saved_when_written S tr0" by simp
    then show ?thesis by blast
  next
    case True
    with Cons.prems(1) s1 have l: "send_loop_with S E ctx ks x1 = (r, x')" by simp
    from send_one_with_normal[OF s1[unfolded True]] obtain receiver m ws where
      t: "trace x1 = trace x @ map Logged ws @
                        Sendmail k m (sendmail E k) # pass_events S E ctx k receiver"
      and c: "counter_file x1 =
             counter_file_after (pass_events S E ctx k receiver) (counter_file x)"
      by blast
    let ?B = "Sendmail k m (sendmail E k) # pass_events S E ctx k receiver"
    let ?tr = "(tr0 @ map Logged ws) @ ?B"
    from Cons.prems(7) have "i \<le> k" by simp
    with Cons.prems(4) have "between_passes u k tr0" by (rule between_passes_mono)
    then have "between_passes u k (tr0 @ map Logged ws)"
      by (rule between_passes_neutrals) simp
    then have bp: "between_passes u (k + 1) ?tr" by (rule between_passes_pass)
    have sw: "saved_when_written S ?tr"
      by (intro saved_when_written_append Cons.prems(5) saved_when_written_neutrals
          saved_when_written_pass) simp
    have t1: "trace x1 = trace u @ ?tr" using t Cons.prems(2) by simp
    have "counter_file_after ?tr (counter_file u) =
        counter_file_after (pass_events S E ctx k receiver)
          (counter_file_after tr0 (counter_file u))"
      by (cases "sendmail E k") simp_all
    with c Cons.prems(3) have c1: "counter_file x1 = counter_file_after ?tr (counter_file u)"
      by simp
    from Cons.prems(6) have srt: "sorted_wrt (<) ks" and "\<forall>j \<in> set ks. k < j" by simp_all
    then have ge: "\<forall>j \<in> set ks. k + 1 \<le> j" by auto
    from Cons.IH[OF l t1 c1 bp sw srt ge] show ?thesis .
  qed
qed


lemma py_range_strict: "sorted_wrt (<) (py_range a b)"
  using py_range_sorted[of a b] by (simp add: strict_sorted_iff)

lemma between_passes_start:
  assumes "load_counter w = Inr v" and "as_int v = Some s"
  shows "between_passes w s []"
proof -
  have "w\<lparr>counter_file := counter_file w\<rparr> = w" by simp
  then have "cursor_after w [] = Some s" using assms by (simp add: cursor_after_def)
  then show ?thesis by (simp add: between_passes_def settled_def)
qed

lemma send_batch_with_run:
  assumes "send_batch_with S E ctx k u = (r, u')"
    and "trace u = trace w @ tr0" and "list_all neutral tr0"
    and "counter_file u = counter_file w"
  shows "\<exists>new. trace u' = trace w @ new \<and>
           counter_file u' = counter_file_after new (counter_file w) \<and>
           crash_safe w new \<and> saved_when_written S new"
proof -
  let ?goal = "\<lambda>new. trace u' = trace w @ new \<and>
           counter_file u' = counter_file_after new (counter_file w) \<and>
           crash_safe w new \<and> saved_when_written S new"
  have quiet: "?goal (tr0 @ es)" if "trace u' = trace u @ es" "counter_file u' = counter_file u"
    "list_all neutral es" for es
  proof -
    from that(3) assms(3) have n: "list_all neutral (tr0 @ es)" by simp
    then have "delivered (tr0 @ es) = []" by (rule delivered_neutrals)
    then have "crash_safe w (tr0 @ es)" by (rule crash_safe_undelivered)
    moreover have "saved_when_written S (tr0 @ es)" using n by (rule saved_when_written_neutrals)
    moreover have "counter_file_after (tr0 @ es) (counter_file w) = counter_file w"
      using n by (rule counter_file_after_neutrals)
    ultimately show ?thesis using that(1,2) assms(2,4) by simp
  qed
  have lc: "load_counter u = load_counter w" using assms(4) by (simp add: load_counter_def)
  consider
      (raise) "u' = u"
    | (exhausted) v s where "load_counter u = Inr v" "as_int v = Some s"
        "int (length (email_list ctx)) \<le> s"
    | (nologin) v s e where "load_counter u = Inr v" "as_int v = Some s"
        "s < int (length (email_list ctx))" "smtp_login E = Some e"
    | (loop) v s where "load_counter u = Inr v" "as_int v = Some s"
        "s < int (length (email_list ctx))" "smtp_login E = None"
    using assms(1)
    by (cases "load_counter u"; cases "as_int (projr (load_counter u))"; cases "smtp_login E";
        cases "the (as_int (projr (load_counter u))) < int (length (email_list ctx))")
       (auto simp: send_batch_with_def)
  then show ?thesis
  proof cases
    case raise
    then have "?goal (tr0 @ [])" by (intro quiet) simp_all
    then show ?thesis by blast
  next
    case exhausted
    with assms(1) have "u' = log_message AllSent u" by (simp add: send_batch_with_def)
    then have "?goal (tr0 @ [Logged AllSent])" by (intro quiet) simp_all
    then show ?thesis by blast
  next
    case nologin
    with assms(1)
    have "u' = log_message (ConnectFailed e) (effect (SmtpLogin (Some e))
              (log_message (Preparing v (end_counter s k (email_list ctx) - 1)) u))"
      by (simp add: send_batch_with_def Let_def)
    then have "?goal (tr0 @ [Logged (Preparing v (end_counter s k (email_list ctx) - 1)),
                      SmtpLogin (Some e), Logged (ConnectFailed e)])"
      by (intro quiet) simp_all
    then show ?thesis by blast
  next
    case loop
    let ?u2 = "connected_world v (end_counter s k (email_list ctx) - 1) u"
    let ?is = "py_range s (end_counter s k (email_list ctx))"
    let ?pre = "[Logged (Preparing v (end_counter s k (email_list ctx) - 1)), SmtpLogin None,
                 Logged Connected]"
    obtain r3 u3 where l: "send_loop_with S E ctx ?is ?u2 = (r3, u3)"
      by (cases "send_loop_with S E ctx ?is ?u2")
    from assms(1) loop l
    have u': "u' = (if r3 = Normal then log_message BatchFinished (effect SmtpQuit u3) else u3)"
      by (cases r3) (auto simp: send_batch_with_def Let_def connected_world_def)
    have n0: "list_all neutral (tr0 @ ?pre)" using assms(3) by simp
    from loop(1,2) lc have "between_passes w s []" by (intro between_passes_start) simp_all
    from between_passes_neutrals[OF this n0]
    have bp: "between_passes w s (tr0 @ ?pre)" by simp
    have sw: "saved_when_written S (tr0 @ ?pre)" using n0 by (rule saved_when_written_neutrals)
    have t2: "trace ?u2 = trace w @ (tr0 @ ?pre)"
      using assms(2) by (simp add: connected_world_def)
    have c2: "counter_file ?u2 = counter_file_after (tr0 @ ?pre) (counter_file w)"
      using assms(4) counter_file_after_neutrals[OF n0] by (simp add: connected_world_def)
    have ge: "\<forall>j \<in> set ?is. s \<le> j" by (simp add: py_range_set)
    from send_loop_with_run[OF l t2 c2 bp sw py_range_strict ge] obtain tr1 n where
      1: "trace u3 = trace w @ tr1" "counter_file u3 = counter_file_after tr1 (counter_file w)"
         "between_passes w n tr1" "saved_when_written S tr1" by blast
    let ?post = "if r3 = Normal then [SmtpQuit, Logged BatchFinished] else []"
    have np: "list_all neutral ?post" by simp
    from between_passes_neutrals[OF 1(3) np] have "crash_safe w (tr1 @ ?post)"
      by (simp add: between_passes_def)
    moreover have "saved_when_written S (tr1 @ ?post)"
      by (intro saved_when_written_append 1(4) saved_when_written_neutrals np)
    moreover have "counter_file_after (tr1 @ ?post) (counter_file w) =
        counter_file_after tr1 (counter_file w)" by simp
    ultimately have "?goal (tr1 @ ?post)" using 1(1,2) u' by auto
    then show ?thesis by blast
  qed
qed

lemma task_with_reaches:
  assumes "stopper_of config = Inr k" and "config_complete config"
    and "resume_of config = Inr p" and "read_csv E = Emails xs"
  shows "send_emails_task_with S E config w =
           send_batch_with S E (run_ctx_of config p xs) k (loaded_world config xs w)"
  using assms
  by (simp add: send_emails_task_with_def stopper_of_def config_complete_def resume_of_def
      run_ctx_of_def loaded_world_def Let_def)

lemma task_with_early:
  assumes "send_emails_task_with S E config w = (r, w')"
    and "\<not> (\<exists>k p xs. stopper_of config = Inr k \<and> config_complete config \<and>
              resume_of config = Inr p \<and> read_csv E = Emails xs)"
  shows "\<exists>ms. trace w' = trace w @ map Logged ms \<and> counter_file w' = counter_file w"
proof -
  have "w' = log_message Started (w\<lparr>LOGS := []\<rparr>) \<or>
        (\<exists>m. w' = log_message m (log_message Started (w\<lparr>LOGS := []\<rparr>)))"
    using assms
    by (auto simp: send_emails_task_with_def stopper_of_def config_complete_def resume_of_def
        Let_def split: sum.splits if_splits csv_outcome.splits)
  then show ?thesis
  proof
    assume "w' = log_message Started (w\<lparr>LOGS := []\<rparr>)"
    then have "trace w' = trace w @ map Logged [Started] \<and> counter_file w' = counter_file w"
      by simp
    then show ?thesis by blast
  next
    assume "\<exists>m. w' = log_message m (log_message Started (w\<lparr>LOGS := []\<rparr>))"
    then obtain m where "w' = log_message m (log_message Started (w\<lparr>LOGS := []\<rparr>))" by blast
    then have "trace w' = trace w @ map Logged [Started, m] \<and>
        counter_file w' = counter_file w" by simp
    then show ?thesis by blast
  qed
qed

lemma task_with_run:
  assumes "send_emails_task_with S E config w = (r, w')"
  shows "\<exists>new. trace w' = trace w @ new \<and>
           counter_file w' = counter_file_after new (counter_file w) \<and>
           crash_safe w new \<and> saved_when_written S new"
proof (cases "\<exists>k p xs. stopper_of config = Inr k \<and> config_complete config \<and>
              resume_of config = Inr p \<and> read_csv E = Emails xs")
  case False
  from task_with_early[OF assms False] obtain ms where
    m: "trace w' = trace w @ map Logged ms" "counter_file w' = counter_file w" by blast
  have n: "list_all neutral (map Logged ms)" by simp
  have "delivered (map Logged ms) = []" using n by (rule delivered_neutrals)
  then have "crash_safe w (map Logged ms)" by (rule crash_safe_undelivered)
  moreover have "saved_when_written S (map Logged ms)"
    using n by (rule saved_when_written_neutrals)
  moreover have "counter_file_after (map Logged ms) (counter_file w) = counter_file w"
    using n by (rule counter_file_after_neutrals)
  ultimately show ?thesis using m by auto
next
  case True
  then obtain k p xs where h: "stopper_of config = Inr k" "config_complete config"
    "resume_of config = Inr p" "read_csv E = Emails xs" by blast
  from task_with_reaches[OF h] assms
  have b: "send_batch_with S E (run_ctx_of config p xs) k (loaded_world config xs w) = (r, w')"
    by simp
  have t: "trace (loaded_world config xs w) = trace w @ [Logged Started,
                Logged (LoadedEmails (length xs) (dict_get config ''default_file'' PNone))]"
    by simp
  show ?thesis
    by (rule send_batch_with_run[OF b t]) simp_all
qed

text \<open>
  A write of the counter that raises stands inside the \<^verbatim>\<open>try\<close> of lines 216 to 223: the
  handler logs it as a failure to send to a recipient whose message the server has taken,
  the counter is not advanced, and the run goes on. On a full disk both messages of the
  batch are delivered, both are logged as failed, and the file is left empty.
\<close>

lemma failed_write_logged_as_send_error:
  "(let w' = snd (send_emails_task_with full_disk ex_env ex_config ex_world);
        T = new_trace ex_world w' in
      delivered T = [0, 1] \<and>
      counter_file w' = Some NotJson \<and>
      load_counter w' = Inr (PInt 0) \<and>
      lost_sends ex_world T = [0, 1] \<and>
      SendError ''john.doe@x.com'' ''No space left on device'' \<in> set (logged T) \<and>
      SendError ''a1b2@x.com'' ''No space left on device'' \<in> set (logged T))"
  by code_simp

section \<open>The claims\<close>

text \<open>
  Where no storage is named the task is \<open>send_emails_task\<close>, on a reliable storage: every
  write of the counter file goes through.
\<close>

subsection \<open>C1: a failed send\<close>




subsection \<open>C2: the counter after a run\<close>



subsection \<open>C3: exceptions that leave the task\<close>

text \<open>
  C3 says that the task never raises to its caller, whatever the configuration, and that an
  undefined placeholder in the template ends the run with a final event. Loading the
  recipients, connecting, attaching and sending are wrapped in \<^verbatim>\<open>try\<close>; line 200, which
  formats the body, is not. With the template \<^verbatim>\<open>Dear {name},\<close> the run loads the list,
  connects, and leaves with \<^verbatim>\<open>KeyError\<close> at the first recipient: the last event is
  \<open>Connected\<close>, the session is never closed and no final event is logged.
\<close>

theorem unknown_placeholder_raises:
  "send_emails_task ex_env bad_template_config ex_world =
     (Raised KeyError,
      ex_world\<lparr>LOGS := [Started, LoadedEmails 3 (PStr ''list.csv''), Preparing (PInt 0) 1,
                         Connected],
                trace := [Logged Started, Logged (LoadedEmails 3 (PStr ''list.csv'')),
                          Logged (Preparing (PInt 0) 1), SmtpLogin None, Logged Connected]\<rparr>)"
  by code_simp

subsection \<open>C4: the configuration a run needs\<close>

text \<open>
  C4 asks for every field of the configuration, the batch size, the template and the
  attachment among them, before a run may send. Line 148 tests the sender, the password and
  the recipient file only; the batch size and the template have defaults (lines 141 to 145)
  and the attachment is optional (line 152). With those three fields alone the run sends to
  all three recipients.
\<close>

theorem optional_fields_counterexample:
  "dict_get bare_config ''stopper'' PNone = PNone \<and>
   dict_get bare_config ''template_body'' PNone = PNone \<and>
   dict_get bare_config ''resume_file'' PNone = PNone \<and>
   fst (send_emails_task ex_env bare_config ex_world) = Normal \<and>
   attempts (new_trace ex_world (snd (send_emails_task ex_env bare_config ex_world)))
     = [0, 1, 2] \<and>
   counter_file (snd (send_emails_task ex_env bare_config ex_world))
     = Some (Json (PDict [(''counter'', PInt 3)]))"
  by code_simp

text \<open>
  C4 as amended: a run sends only when the sender address, the password and the recipient
  file are present and not empty. When one of the three is missing or empty (and the batch
  size, if given, converts to an int) the run logs the error event and returns: nothing but
  the two events is done, no recipient is touched, the counter file is not written.
\<close>

theorem incomplete_config_stops:
  "(stopper_of config = Inr k \<and>
    \<not> (truthy (dict_get config ''email'' PNone) \<and> truthy (dict_get config ''password'' PNone) \<and>
       truthy (dict_get config ''default_file'' PNone)) \<longrightarrow>
      send_emails_task E config w =
        (Normal, w\<lparr>LOGS := [Started, MissingConfig],
                   trace := trace w @ [Logged Started, Logged MissingConfig]\<rparr>)) \<and>
   (send_emails_task E config w = (r, w') \<and> attempts (new_trace w w') \<noteq> [] \<longrightarrow>
      truthy (dict_get config ''email'' PNone) \<and> truthy (dict_get config ''password'' PNone) \<and>
      truthy (dict_get config ''default_file'' PNone))"
proof -
  have a: "send_emails_task E config w =
        (Normal, w\<lparr>LOGS := [Started, MissingConfig],
                   trace := trace w @ [Logged Started, Logged MissingConfig]\<rparr>)"
    if "stopper_of config = Inr k"
      "\<not> (truthy (dict_get config ''email'' PNone) \<and> truthy (dict_get config ''password'' PNone) \<and>
       truthy (dict_get config ''default_file'' PNone))"
    using that
    by (auto simp: send_emails_task_def send_emails_task_with_def stopper_of_def Let_def
        log_message_def effect_def)
  have b: "truthy (dict_get config ''email'' PNone) \<and> truthy (dict_get config ''password'' PNone) \<and>
      truthy (dict_get config ''default_file'' PNone)"
    if run: "send_emails_task E config w = (r, w')" and ne: "attempts (new_trace w w') \<noteq> []"
  proof -
    from task_run[OF run] obtain new ks where
      n: "trace w' = trace w @ new" "attempts new = ks"
         "ks = [] \<or> (config_complete config \<and>
              (\<exists>k xs v s rest. stopper_of config = Inr k \<and> read_csv E = Emails xs \<and>
                  load_counter w = Inr v \<and> as_int v = Some s \<and>
                  py_range s (end_counter s k xs) = ks @ rest))" by blast
    with ne have "config_complete config" by (auto simp: new_trace_append)
    then show ?thesis by (simp add: config_complete_def)
  qed
  from a b show ?thesis by blast
qed

theorem incomplete_config_stops_witness:
  "stopper_of (tl bare_config) = Inr 100 \<and>
   \<not> truthy (dict_get (tl bare_config) ''email'' PNone) \<and>
   send_emails_task ex_env (tl bare_config) ex_world =
     (Normal, ex_world\<lparr>LOGS := [Started, MissingConfig],
                        trace := trace ex_world @ [Logged Started, Logged MissingConfig]\<rparr>) \<and>
   attempts (new_trace ex_world (snd (send_emails_task ex_env ex_config ex_world))) = [0, 1] \<and>
   truthy (dict_get ex_config ''email'' PNone) \<and> truthy (dict_get ex_config ''password'' PNone) \<and>
   truthy (dict_get ex_config ''default_file'' PNone)"
proof -
  have h: "stopper_of (tl bare_config) = Inr 100"
    "\<not> truthy (dict_get (tl bare_config) ''email'' PNone)"
    by code_simp+
  have a: "attempts (new_trace ex_world (snd (send_emails_task ex_env ex_config ex_world)))
             = [0, 1]"
    by code_simp
  from incomplete_config_stops
      [where config = "tl bare_config" and k = 100 and E = ex_env and w = ex_world] h
  have 1: "send_emails_task ex_env (tl bare_config) ex_world =
     (Normal, ex_world\<lparr>LOGS := [Started, MissingConfig],
                        trace := trace ex_world @ [Logged Started, Logged MissingConfig]\<rparr>)"
    by blast
  from incomplete_config_stops
      [where config = ex_config and E = ex_env and w = ex_world
         and r = "fst (send_emails_task ex_env ex_config ex_world)"
         and w' = "snd (send_emails_task ex_env ex_config ex_world)"] a
  have 2: "truthy (dict_get ex_config ''email'' PNone) \<and>
      truthy (dict_get ex_config ''password'' PNone) \<and>
      truthy (dict_get ex_config ''default_file'' PNone)"
    by simp
  from h a 1 2 show ?thesis by blast
qed

subsection \<open>C5: starting a run while one is active\<close>

text \<open>
  C5 says that starting a run fails while another run is active. \<^verbatim>\<open>start_sending\<close> holds
  no flag and reads nothing about running threads: with one run active it answers with
  success and starts a second thread.
\<close>

theorem second_run_started_counterexample:
  "threads busy_world = [ex_config] \<and>
   fst (start_sending busy_world) =
     Inr [(''success'', PBool True), (''message'', PStr ''Email sending process initiated.'')] \<and>
   length (threads (snd (start_sending busy_world))) = 2"
  by code_simp

text \<open>
  C5 as amended: the answer of \<^verbatim>\<open>start_sending\<close> does not depend on the runs that are
  active. Whenever the handler returns, it acknowledges with success and has started exactly
  one more background run, so that several runs can be active at once; when it raises, the
  state is as before. It returns whenever the stored configuration is an object without a
  saved template.
\<close>

theorem start_sending_ignores_active_runs:
  "fst (start_sending (w\<lparr>threads := ts\<rparr>)) = fst (start_sending w) \<and>
   (\<forall>resp w'. start_sending w = (Inr resp, w') \<longrightarrow>
      resp = [(''success'', PBool True),
              (''message'', PStr ''Email sending process initiated.'')] \<and>
      (\<exists>send_config. threads w' = threads w @ [send_config] \<and>
                      trace w' = trace w @ [ThreadStarted send_config])) \<and>
   (\<forall>e w'. start_sending w = (Inl e, w') \<longrightarrow> w' = w) \<and>
   (\<forall>config. load_config w = Inr (PDict config) \<and> map_of config ''current_template'' = None \<longrightarrow>
      (\<exists>resp w'. start_sending w = (Inr resp, w')))"
proof -
  have lc: "load_config (w\<lparr>threads := ts\<rparr>) = load_config w" by (simp add: load_config_def)
  have a: "fst (start_sending (w\<lparr>threads := ts\<rparr>)) = fst (start_sending w)"
    unfolding start_sending_def lc
    by (auto simp: Let_def split: pyval.splits sum.splits)
  have b: "\<forall>resp w'. start_sending w = (Inr resp, w') \<longrightarrow>
      resp = [(''success'', PBool True),
              (''message'', PStr ''Email sending process initiated.'')] \<and>
      (\<exists>send_config. threads w' = threads w @ [send_config] \<and>
                      trace w' = trace w @ [ThreadStarted send_config])"
    by (auto simp: start_sending_def Let_def split: pyval.splits sum.splits)
  have c: "\<forall>e w'. start_sending w = (Inl e, w') \<longrightarrow> w' = w"
    by (auto simp: start_sending_def Let_def split: pyval.splits sum.splits)
  have d: "\<forall>config. load_config w = Inr (PDict config) \<and> map_of config ''current_template'' = None \<longrightarrow>
      (\<exists>resp w'. start_sending w = (Inr resp, w'))"
    by (auto simp: start_sending_def Let_def dict_get_def in_templates_def)
  from a b c d show ?thesis by blast
qed

theorem start_sending_ignores_active_runs_witness:
  "load_config busy_world =
     Inr (PDict [(''email'', PStr ''me@x.org''), (''password'', PStr ''abcdabcdabcdabcd''),
            (''stopper'', PInt 5), (''default_file'', PStr ''list.csv'')]) \<and>
   map_of [(''email'', PStr ''me@x.org''), (''password'', PStr ''abcdabcdabcdabcd''),
            (''stopper'', PInt 5), (''default_file'', PStr ''list.csv'')]
       ''current_template'' = None \<and>
   (\<exists>resp w'. start_sending busy_world = (Inr resp, w')) \<and>
   fst (start_sending busy_world) =
     Inr [(''success'', PBool True), (''message'', PStr ''Email sending process initiated.'')]"
proof -
  have h: "load_config busy_world =
     Inr (PDict [(''email'', PStr ''me@x.org''), (''password'', PStr ''abcdabcdabcdabcd''),
            (''stopper'', PInt 5), (''default_file'', PStr ''list.csv'')])"
    "map_of [(''email'', PStr ''me@x.org''), (''password'', PStr ''abcdabcdabcdabcd''),
            (''stopper'', PInt 5), (''default_file'', PStr ''list.csv'')]
       ''current_template'' = None"
    by code_simp+
  note t = start_sending_ignores_active_runs [where w = busy_world]
  from t h have e: "\<exists>resp w'. start_sending busy_world = (Inr resp, w')" by blast
  then obtain resp w' where s: "start_sending busy_world = (Inr resp, w')" by blast
  with t have "resp = [(''success'', PBool True),
              (''message'', PStr ''Email sending process initiated.'')]" by blast
  with s have "fst (start_sending busy_world) =
     Inr [(''success'', PBool True), (''message'', PStr ''Email sending process initiated.'')]"
    by simp
  with h e show ?thesis by blast
qed

subsection \<open>C6: loading the counter\<close>

text \<open>
  C6 says that loading the counter always returns an integer and never fails, with 0 for an
  absent file and for any corrupt content. Lines 72 and 73 turn a file that is not valid
  JSON into 0, and so does an absent file. The same handler lets through what else a
  corrupt file brings: a file whose content is valid JSON but not an object, here the empty
  list, makes \<^verbatim>\<open>data.get\<close> raise \<^verbatim>\<open>AttributeError\<close>; a file whose bytes cannot be decoded
  raises \<^verbatim>\<open>UnicodeDecodeError\<close>, which \<^verbatim>\<open>except json.JSONDecodeError\<close> does not catch; an
  object whose \<^verbatim>\<open>counter\<close> is a string is returned as that string.
\<close>

theorem load_counter_not_object_raises:
  "load_counter (ex_world\<lparr>counter_file := Some (Json (PList []))\<rparr>) = Inl AttributeError \<and>
   load_counter (ex_world\<lparr>counter_file := Some Undecodable\<rparr>) = Inl UnicodeDecodeError \<and>
   load_counter (ex_world\<lparr>counter_file := Some (Json (PDict [(''counter'', PStr ''abc'')]))\<rparr>)
     = Inr (PStr ''abc'') \<and>
   load_counter (ex_world\<lparr>counter_file := Some NotJson\<rparr>) = Inr (PInt 0) \<and>
   load_counter ex_world = Inr (PInt 0)"
  by (simp add: load_counter_def py_get_def dict_get_def ex_world_def)

subsection \<open>C7: the batch window\<close>

text \<open>
  C7: in every run that reaches the window computation, the end of the window is
  \<open>min (start + stopper) (length of the list)\<close>; so the window is no longer than the
  batch size and does not pass the end of the list. Here \<open>k\<close> is the batch size of line 141,
  \<open>xs\<close> the loaded list and \<open>s\<close> the counter read at line 171. The run is any run, whatever
  its outcome: each index it hands to \<^verbatim>\<open>server.sendmail\<close> lies in the window, and it makes
  at most \<open>k\<close> such calls.
\<close>

theorem batch_window_bound:
  assumes "send_emails_task E config w = (r, w')"
    and "stopper_of config = Inr k" and "read_csv E = Emails xs"
    and "load_counter w = Inr v" and "as_int v = Some s"
  shows "end_counter s k xs = min (s + k) (int (length xs)) \<and>
         end_counter s k xs - s \<le> k \<and>
         end_counter s k xs \<le> int (length xs) \<and>
         (\<forall>i \<in> set (attempts (new_trace w w')). s \<le> i \<and> i < end_counter s k xs) \<and>
         int (length (attempts (new_trace w w'))) \<le> max 0 k"
proof -
  from task_run[OF assms(1)] obtain new ks where
    n: "trace w' = trace w @ new" "attempts new = ks"
      "ks = [] \<or> (\<exists>k xs v s rest. stopper_of config = Inr k \<and> read_csv E = Emails xs \<and>
                  load_counter w = Inr v \<and> as_int v = Some s \<and>
                  py_range s (end_counter s k xs) = ks @ rest)"
    by blast
  have nt: "attempts (new_trace w w') = ks" using n(1,2) by (simp add: new_trace_append)
  have e: "end_counter s k xs - s \<le> k" "end_counter s k xs \<le> int (length xs)"
    by (simp_all add: end_counter_def)
  have "(\<forall>i \<in> set ks. s \<le> i \<and> i < end_counter s k xs) \<and> int (length ks) \<le> max 0 k"
  proof (cases "ks = []")
    case True
    then show ?thesis by simp
  next
    case False
    with n(3) assms(2-5) obtain rest where r: "py_range s (end_counter s k xs) = ks @ rest"
      by auto
    then have "set ks \<subseteq> set (py_range s (end_counter s k xs))" by simp
    then have a: "\<forall>i \<in> set ks. s \<le> i \<and> i < end_counter s k xs"
      by (auto simp: py_range_set)
    from r have "length ks \<le> length (py_range s (end_counter s k xs))" by simp
    then have "int (length ks) \<le> max 0 k" using e(1) by (simp add: py_range_length)
    with a show ?thesis by simp
  qed
  with nt e show ?thesis by (simp add: end_counter_def)
qed

theorem batch_window_bound_witness:
  "stopper_of ex_config = Inr 2 \<and> read_csv ex_env = Emails ex_addresses \<and>
   load_counter ex_world = Inr (PInt 0) \<and> as_int (PInt 0) = Some 0 \<and>
   end_counter 0 2 ex_addresses = 2 \<and>
   attempts (new_trace ex_world (snd (send_emails_task ex_env ex_config ex_world))) = [0, 1]"
proof -
  have h: "stopper_of ex_config = Inr 2" "read_csv ex_env = Emails ex_addresses"
    "load_counter ex_world = Inr (PInt 0)" "as_int (PInt 0) = Some 0"
    by code_simp+
  have a: "attempts (new_trace ex_world (snd (send_emails_task ex_env ex_config ex_world)))
             = [0, 1]"
    by code_simp
  have e: "end_counter 0 2 ex_addresses = 2" by code_simp
  from batch_window_bound [OF surjective_pairing h] h a e show ?thesis by simp
qed

subsection \<open>C8: a campaign that is exhausted\<close>

text \<open>
  C8: when the counter read at the start of a run is at least the length of the recipient
  list, the run sends nothing and leaves the counter file as it was; and when the run gets as
  far as reading the counter (the batch size converts, line 148 passes, the resume path is
  formed) it returns with exactly one \<open>AllSent\<close> event, as the last of three events. A second
  run from the resulting world ends in the same world, but for the trace of what was done,
  which grows by the same three events.
\<close>

theorem exhausted_run_idempotent:
  assumes "send_emails_task E config w = (r, w')"
    and "read_csv E = Emails xs"
    and "load_counter w = Inr v" and "as_int v = Some s" and "int (length xs) \<le> s"
  shows "attempts (new_trace w w') = [] \<and> counter_file w' = counter_file w \<and>
         ((\<exists>k p. stopper_of config = Inr k \<and> config_complete config \<and> resume_of config = Inr p)
            \<longrightarrow> r = Normal \<and>
                LOGS w' = [Started,
                           LoadedEmails (length xs) (dict_get config ''default_file'' PNone),
                           AllSent] \<and>
                count_list (LOGS w') AllSent = 1 \<and>
                send_emails_task E config w' = (Normal, w'\<lparr>trace := trace w' @ new_trace w w'\<rparr>))"
proof -
  from task_run[OF assms(1)] obtain new ks where
    n: "trace w' = trace w @ new" "attempts new = ks"
      "counter_file w' = (if filter (ok E) ks = [] then counter_file w
                              else stored (last (filter (ok E) ks) + 1))"
      "ks = [] \<or> (\<exists>k xs v s rest. stopper_of config = Inr k \<and> read_csv E = Emails xs \<and>
                  load_counter w = Inr v \<and> as_int v = Some s \<and>
                  py_range s (end_counter s k xs) = ks @ rest)"
    by blast
  have "ks = []"
  proof (rule ccontr)
    assume ne: "ks \<noteq> []"
    with n(4) assms(2-4) obtain k rest where "py_range s (end_counter s k xs) = ks @ rest"
      by auto
    moreover have "py_range s (end_counter s k xs) = []"
      using assms(5) by (simp add: py_range_def end_counter_def)
    ultimately show False using ne by simp
  qed
  with n have a: "attempts (new_trace w w') = []" "counter_file w' = counter_file w"
    by (simp_all add: new_trace_append)
  have b: "r = Normal \<and>
           LOGS w' = [Started, LoadedEmails (length xs) (dict_get config ''default_file'' PNone),
                      AllSent] \<and>
           count_list (LOGS w') AllSent = 1 \<and>
           send_emails_task E config w' = (Normal, w'\<lparr>trace := trace w' @ new_trace w w'\<rparr>)"
    if h: "stopper_of config = Inr k" "config_complete config" "resume_of config = Inr p"
    for k p
  proof -
    have ex: "\<And>u. load_counter u = Inr v \<Longrightarrow>
        send_emails_task E config u = (Normal, log_message AllSent (loaded_world config xs u))"
      using assms(2,4,5) h
      by (simp add: task_reaches send_batch_exhausted run_ctx_of_def)
    from ex[OF assms(3)] assms(1)
    have w': "r = Normal" "w' = log_message AllSent (loaded_world config xs w)" by simp_all
    have "load_counter w' = Inr v" using a(2) assms(3) load_counter_cong by metis
    from ex[OF this] have "send_emails_task E config w' =
        (Normal, log_message AllSent (loaded_world config xs w'))" .
    moreover have "log_message AllSent (loaded_world config xs w') =
        w'\<lparr>trace := trace w' @ new_trace w w'\<rparr>"
      using w'(2)
      by (simp add: new_trace_def log_message_def loaded_world_def effect_def)
    ultimately show ?thesis using w' by simp
  qed
  from a b show ?thesis by blast
qed


theorem exhausted_run_idempotent_witness:
  "read_csv ex_env = Emails ex_addresses \<and>
   load_counter sent_world = Inr (PInt 3) \<and> as_int (PInt 3) = Some 3 \<and>
   int (length ex_addresses) \<le> 3 \<and>
   stopper_of ex_config = Inr 2 \<and> config_complete ex_config \<and>
   resume_of ex_config = Inr None \<and>
   attempts (new_trace sent_world (snd (send_emails_task ex_env ex_config sent_world))) = [] \<and>
   counter_file (snd (send_emails_task ex_env ex_config sent_world)) = counter_file sent_world \<and>
   LOGS (snd (send_emails_task ex_env ex_config sent_world)) =
     [Started, LoadedEmails 3 (PStr ''list.csv''), AllSent]"
proof -
  have h: "read_csv ex_env = Emails ex_addresses"
    "load_counter sent_world = Inr (PInt 3)" "as_int (PInt 3) = Some 3"
    "int (length ex_addresses) \<le> 3"
    by code_simp+
  have c: "stopper_of ex_config = Inr 2" "config_complete ex_config"
    "resume_of ex_config = Inr None"
    by code_simp+
  have d: "length ex_addresses = 3" "dict_get ex_config ''default_file'' PNone = PStr ''list.csv''"
    by code_simp+
  from exhausted_run_idempotent [OF surjective_pairing h] h c d show ?thesis by auto
qed

subsection \<open>C9: the counter is saved after each send\<close>

text \<open>
  C9 says that the counter is written as \<open>i + 1\<close> at once after the send for \<open>i\<close> succeeds,
  before the pause and before the next send, so that a crash in the middle of a batch loses
  at most the send in flight. \<^verbatim>\<open>save_counter\<close> opens the file with mode \<^verbatim>\<open>'w'\<close>, which
  empties it, and writes afterwards. In the run below the sends for the indices 0 and 1 have
  returned when the second write has emptied the file; a process cut off there leaves an
  empty file, which loads as 0, so both sends are lost, and the next run sends to 0 and 1
  again.
\<close>

theorem crash_inside_write_counterexample:
  "last (take 13 (new_trace ex_world (snd (send_emails_task ex_env ex_config ex_world))))
     = TruncatedCounter \<and>
   delivered (take 13 (new_trace ex_world (snd (send_emails_task ex_env ex_config ex_world))))
     = [0, 1] \<and>
   counter_file_after
     (take 13 (new_trace ex_world (snd (send_emails_task ex_env ex_config ex_world))))
     (counter_file ex_world) = Some NotJson \<and>
   cursor_after ex_world
     (take 13 (new_trace ex_world (snd (send_emails_task ex_env ex_config ex_world))))
     = Some 0 \<and>
   lost_sends ex_world
     (take 13 (new_trace ex_world (snd (send_emails_task ex_env ex_config ex_world))))
     = [0, 1] \<and>
   attempts (new_trace (ex_world\<lparr>counter_file := Some NotJson\<rparr>)
      (snd (send_emails_task ex_env ex_config (ex_world\<lparr>counter_file := Some NotJson\<rparr>))))
     = [0, 1]"
  by code_simp

text \<open>
  C9 as amended, on any storage: in the trace of any run, a send for \<open>i\<close> that returned and
  whose write goes through is followed at once by the success event, by the write of
  \<open>i + 1\<close>, which first empties the file and then leaves it loading as \<open>i + 1\<close>, and by the
  pause of five seconds: the write comes before the pause and before any later send, and
  no write is put off. The counter file of the final state is the one the trace leaves. A
  run cut off at a point that is not inside a write, and before which no write has raised,
  loses at most one send; a run cut off inside a write leaves a file that loads as 0.
  What a write that raises does to the counter is not part of the statement.
\<close>

theorem cursor_saved_at_once_crash_bound:
  assumes "send_emails_task_with S E config w = (r, w')"
  shows
    "(\<forall>pre post i m. new_trace w w' = pre @ Sendmail i m None # post \<and> S (i + 1) = Written \<longrightarrow>
        (\<exists>msg post'. post = Logged msg # TruncatedCounter # SavedCounter (i + 1) #
                                 Slept 5 # post')) \<and>
     counter_file w' = counter_file_after (new_trace w w') (counter_file w) \<and>
     (\<forall>c u. S c = Written \<longrightarrow>
        load_counter (snd (save_counter_with S c u)) = Inr (PInt c)) \<and>
     (\<forall>pre post. new_trace w w' = pre @ post \<and> (\<forall>e. SaveRaised e \<notin> set pre) \<and>
        (pre = [] \<or> last pre \<noteq> TruncatedCounter) \<longrightarrow>
          length (lost_sends w pre) \<le> 1) \<and>
     (\<forall>pre post. new_trace w w' = pre @ TruncatedCounter # post \<longrightarrow>
          cursor_after w (pre @ [TruncatedCounter]) = Some 0)"
proof -
  from task_with_run[OF assms] obtain new where
    n: "trace w' = trace w @ new" "counter_file w' = counter_file_after new (counter_file w)"
       "crash_safe w new" "saved_when_written S new" by blast
  have nt: "new_trace w w' = new" using n(1) by (rule new_trace_append)
  have a: "\<forall>pre post i m. new_trace w w' = pre @ Sendmail i m None # post \<and>
        S (i + 1) = Written \<longrightarrow>
        (\<exists>msg post'. post = Logged msg # TruncatedCounter # SavedCounter (i + 1) #
                                 Slept 5 # post')"
    using n(4) unfolding nt saved_when_written_def .
  have b: "counter_file w' = counter_file_after (new_trace w w') (counter_file w)"
    using n(2) nt by simp
  have c: "\<forall>c u. S c = Written \<longrightarrow>
        load_counter (snd (save_counter_with S c u)) = Inr (PInt c)"
    by (simp add: save_counter_with_def load_counter_def py_get_def dict_get_def)
  have d: "\<forall>pre post. new_trace w w' = pre @ post \<and> (\<forall>e. SaveRaised e \<notin> set pre) \<and>
        (pre = [] \<or> last pre \<noteq> TruncatedCounter) \<longrightarrow>
          length (lost_sends w pre) \<le> 1"
    using n(3) unfolding nt crash_safe_def crash_point_def by blast
  have e: "\<forall>pre post. new_trace w w' = pre @ TruncatedCounter # post \<longrightarrow>
          cursor_after w (pre @ [TruncatedCounter]) = Some 0"
    by (simp add: cursor_after_def load_counter_def)
  from a b c d e show ?thesis by blast
qed

theorem cursor_saved_at_once_crash_bound_witness:
  "reliable (0 + 1) = Written \<and>
   new_trace ex_world (snd (send_emails_task_with reliable ex_env ex_config ex_world)) =
     take 5 (new_trace ex_world (snd (send_emails_task_with reliable ex_env ex_config ex_world))) @
     Sendmail 0 \<lparr>mail_from = ''Akash Sakhare <me@x.org>'', mail_to = ''john.doe@x.com'',
                  mail_subject = PStr ''Hello'', mail_body = ''Dear Hi John Doe,'',
                  mail_attached = False\<rparr> None #
     [Logged (Success ''john.doe@x.com'' 1 3), TruncatedCounter, SavedCounter 1, Slept 5,
      Sendmail 1 \<lparr>mail_from = ''Akash Sakhare <me@x.org>'', mail_to = ''a1b2@x.com'',
                  mail_subject = PStr ''Hello'', mail_body = ''Dear Hi A B,'',
                  mail_attached = False\<rparr> None,
      Logged (Success ''a1b2@x.com'' 2 3), TruncatedCounter, SavedCounter 2, Slept 5,
      SmtpQuit, Logged BatchFinished] \<and>
   last (take 12 (new_trace ex_world
           (snd (send_emails_task_with reliable ex_env ex_config ex_world))))
     = Logged (Success ''a1b2@x.com'' 2 3) \<and>
   lost_sends ex_world
     (take 12 (new_trace ex_world
        (snd (send_emails_task_with reliable ex_env ex_config ex_world)))) = [1] \<and>
   length (lost_sends ex_world
     (take 12 (new_trace ex_world
        (snd (send_emails_task_with reliable ex_env ex_config ex_world))))) \<le> 1"
proof -
  let ?T = "new_trace ex_world (snd (send_emails_task_with reliable ex_env ex_config ex_world))"
  have s: "reliable (0 + 1) = Written" by (simp add: reliable_def)
  have t: "?T =
     take 5 ?T @
     Sendmail 0 \<lparr>mail_from = ''Akash Sakhare <me@x.org>'', mail_to = ''john.doe@x.com'',
                  mail_subject = PStr ''Hello'', mail_body = ''Dear Hi John Doe,'',
                  mail_attached = False\<rparr> None #
     [Logged (Success ''john.doe@x.com'' 1 3), TruncatedCounter, SavedCounter 1, Slept 5,
      Sendmail 1 \<lparr>mail_from = ''Akash Sakhare <me@x.org>'', mail_to = ''a1b2@x.com'',
                  mail_subject = PStr ''Hello'', mail_body = ''Dear Hi A B,'',
                  mail_attached = False\<rparr> None,
      Logged (Success ''a1b2@x.com'' 2 3), TruncatedCounter, SavedCounter 2, Slept 5,
      SmtpQuit, Logged BatchFinished]"
    by code_simp
  have l: "last (take 12 ?T) = Logged (Success ''a1b2@x.com'' 2 3)"
    "lost_sends ex_world (take 12 ?T) = [1]"
    by code_simp+
  have p: "?T = take 12 ?T @ drop 12 ?T" by simp
  have tk: "take 12 ?T =
     [Logged Started, Logged (LoadedEmails 3 (PStr ''list.csv'')),
      Logged (Preparing (PInt 0) 1), SmtpLogin None, Logged Connected,
      Sendmail 0 \<lparr>mail_from = ''Akash Sakhare <me@x.org>'', mail_to = ''john.doe@x.com'',
                  mail_subject = PStr ''Hello'', mail_body = ''Dear Hi John Doe,'',
                  mail_attached = False\<rparr> None,
      Logged (Success ''john.doe@x.com'' 1 3), TruncatedCounter, SavedCounter 1, Slept 5,
      Sendmail 1 \<lparr>mail_from = ''Akash Sakhare <me@x.org>'', mail_to = ''a1b2@x.com'',
                  mail_subject = PStr ''Hello'', mail_body = ''Dear Hi A B,'',
                  mail_attached = False\<rparr> None,
      Logged (Success ''a1b2@x.com'' 2 3)]"
    by code_simp
  have f: "\<forall>e. SaveRaised e \<notin> set (take 12 ?T)" unfolding tk by simp
  have g: "take 12 ?T = [] \<or> last (take 12 ?T) \<noteq> TruncatedCounter" using l(1) by simp
  from cursor_saved_at_once_crash_bound
    [where S = reliable and E = ex_env and config = ex_config and w = ex_world,
      OF surjective_pairing]
  have "\<forall>pre post. ?T = pre @ post \<and> (\<forall>e. SaveRaised e \<notin> set pre) \<and>
        (pre = [] \<or> last pre \<noteq> TruncatedCounter) \<longrightarrow>
          length (lost_sends ex_world pre) \<le> 1"
    by blast
  then have "?T = take 12 ?T @ drop 12 ?T \<and> (\<forall>e. SaveRaised e \<notin> set (take 12 ?T)) \<and>
        (take 12 ?T = [] \<or> last (take 12 ?T) \<noteq> TruncatedCounter) \<longrightarrow>
          length (lost_sends ex_world (take 12 ?T)) \<le> 1"
    by blast
  with p f g have "length (lost_sends ex_world (take 12 ?T)) \<le> 1" by blast
  with s t l show ?thesis by blast
qed

subsection \<open>C10: the status\<close>

text \<open>
  C10 says that the status holds the counter, the number of recipients and the batch size.
  \<^verbatim>\<open>get_status\<close> returns the counter, the batch size and the address of the sender; it does
  not read the recipient file, and with three recipients no field of the answer is 3.
\<close>

theorem get_status_fields_counterexample:
  "get_status status_world =
     Inr [(''counter'', PInt 2), (''stopper'', PInt 5), (''email'', PStr ''me@x.org'')] \<and>
   read_csv ex_env = Emails ex_addresses \<and> length ex_addresses = 3 \<and>
   PInt 3 \<notin> snd ` set (projr (get_status status_world))"
  by code_simp

text \<open>
  C10 as amended: when \<^verbatim>\<open>get_status\<close> returns, its answer has exactly the three fields
  \<^verbatim>\<open>counter\<close>, \<^verbatim>\<open>stopper\<close> and \<^verbatim>\<open>email\<close>: the value that \<open>load_counter\<close> returns, the
  configured batch size converted to an int (100 when none is stored), and the configured
  sender address (the empty string when none is stored).
\<close>

theorem get_status_fields:
  assumes "get_status w = Inr resp"
  shows "\<exists>cfg counter k.
           load_config w = Inr (PDict cfg) \<and> load_counter w = Inr counter \<and>
           py_int (dict_get cfg ''stopper'' (PInt 100)) = Inr k \<and>
           resp = [(''counter'', counter), (''stopper'', PInt k),
                   (''email'', dict_get cfg ''email'' (PStr []))]"
  using assms
  by (auto simp: get_status_def Let_def py_get_def split: sum.splits pyval.splits)

theorem get_status_fields_witness:
  "get_status status_world =
     Inr [(''counter'', PInt 2), (''stopper'', PInt 5), (''email'', PStr ''me@x.org'')] \<and>
   load_counter status_world = Inr (PInt 2) \<and>
   (\<exists>cfg. load_config status_world = Inr (PDict cfg) \<and>
          py_int (dict_get cfg ''stopper'' (PInt 100)) = Inr 5 \<and>
          dict_get cfg ''email'' (PStr []) = PStr ''me@x.org'')"
proof -
  have g: "get_status status_world =
     Inr [(''counter'', PInt 2), (''stopper'', PInt 5), (''email'', PStr ''me@x.org'')]"
    by code_simp
  have l: "load_counter status_world = Inr (PInt 2)" by code_simp
  from get_status_fields [OF g] g l show ?thesis by auto
qed

end
